theory Spec2Isabelle
  imports Main
begin

section \<open>Typed-route declarations of expo-router (typed-routes/generate.ts)\<close>

text \<open>
  The development embeds the three functions of \<^verbatim>\<open>generate.ts\<close>:
  \<^verbatim>\<open>groupRouteNodes\<close> (the classifier of the route tree),
  \<^verbatim>\<open>contextKeyToType\<close> (the pattern synthesizer) and
  \<^verbatim>\<open>getTypedRoutesDeclarationFile\<close> (the assembler of the declaration file).
  A JavaScript string is a \<^typ>\<open>string\<close>: one \<^typ>\<open>char\<close> per code unit, so only the
  code units below 256 are represented.
\<close>

subsection \<open>String methods\<close>

text \<open>\<^verbatim>\<open>s.startsWith(p)\<close> and \<^verbatim>\<open>s.endsWith(p)\<close>.\<close>

definition startsWith :: "string \<Rightarrow> string \<Rightarrow> bool" where
  "startsWith s p = (take (length p) s = p)"

definition endsWith :: "string \<Rightarrow> string \<Rightarrow> bool" where
  "endsWith s p = (length p \<le> length s \<and> drop (length s - length p) s = p)"

text \<open>
  An index argument of \<^verbatim>\<open>slice\<close>: a negative index counts from the end, and the
  result is clamped to the range from 0 to the length.
\<close>

definition relative_index :: "int \<Rightarrow> nat \<Rightarrow> nat" where
  "relative_index i len = (if i < 0 then nat (max (int len + i) 0) else min (nat i) len)"

text \<open>\<^verbatim>\<open>s.slice(start, end)\<close> and \<^verbatim>\<open>s.slice(start)\<close>.\<close>

definition slice :: "string \<Rightarrow> int \<Rightarrow> int \<Rightarrow> string" where
  "slice s start fin =
     (let len = length s;
          from = relative_index start len;
          to = relative_index fin len
      in take (to - from) (drop from s))"

definition slice_from :: "string \<Rightarrow> int \<Rightarrow> string" where
  "slice_from s start = drop (relative_index start (length s)) s"

text \<open>
  \<^verbatim>\<open>s.split(sep)\<close> for a separator of one code unit: the empty string splits into one
  empty piece, and \<open>n\<close> separators give \<open>n + 1\<close> pieces.
\<close>

fun split :: "string \<Rightarrow> char \<Rightarrow> string list" where
  "split [] sep = [[]]"
| "split (c # cs) sep =
     (if c = sep then [] # split cs sep
      else (case split cs sep of [] \<Rightarrow> [[c]] | x # xs \<Rightarrow> (c # x) # xs))"

text \<open>\<^verbatim>\<open>xs.join(sep)\<close>.\<close>

fun join :: "string list \<Rightarrow> string \<Rightarrow> string" where
  "join [] sep = []"
| "join [x] sep = x"
| "join (x # y # ys) sep = x @ sep @ join (y # ys) sep"

subsection \<open>The regular expressions\<close>

text \<open>
  The dot of a regular expression without the \<^verbatim>\<open>s\<close> flag matches every code unit
  but the line terminators; of the four line terminators, line feed and carriage
  return are below 256.
\<close>

definition line_terminator :: "char \<Rightarrow> bool" where
  "line_terminator c = (c = CHR 0x0A \<or> c = CHR 0x0D)"

text \<open>
  \<^verbatim>\<open>.*?c\<close> at the end of an expression: the lazy star takes as few code units as
  possible, so the match ends at the first \<open>c\<close>, and it fails when a line terminator
  comes before. The result is the matched text and the rest of the input.
\<close>

fun lazy_until :: "char \<Rightarrow> string \<Rightarrow> (string \<times> string) option" where
  "lazy_until stop [] = None"
| "lazy_until stop (c # cs) =
     (if c = stop then Some ([c], cs)
      else if line_terminator c then None
      else (case lazy_until stop cs of
              None \<Rightarrow> None
            | Some (m, r) \<Rightarrow> Some (c # m, r)))"

text \<open>
  A regular expression is modelled by its match at one position: given whether the
  position is the start of the input (for \<^verbatim>\<open>^\<close>) and the input from the position on,
  the matched text and the rest, or \<open>None\<close>.

  \<^verbatim>\<open>GROUP = /(?:^|\/)\(.*?\)/g\<close>. The alternative \<^verbatim>\<open>^\<close> is tried first; when it fails
  later, the alternative \<^verbatim>\<open>\/\<close> cannot match either, the input starting with a
  parenthesis.
\<close>

definition GROUP :: "bool \<Rightarrow> string \<Rightarrow> (string \<times> string) option" where
  "GROUP at_start s =
     (if at_start \<and> startsWith s ''(''
      then (case lazy_until CHR '')'' (drop 1 s) of
              None \<Rightarrow> None
            | Some (m, r) \<Rightarrow> Some (''('' @ m, r))
      else if startsWith s ''/(''
      then (case lazy_until CHR '')'' (drop 2 s) of
              None \<Rightarrow> None
            | Some (m, r) \<Rightarrow> Some (''/('' @ m, r))
      else None)"

text \<open>\<^verbatim>\<open>SLUG = /\[.+?\]/g\<close>: the lazy plus takes one code unit before it looks for the bracket.\<close>

definition SLUG :: "bool \<Rightarrow> string \<Rightarrow> (string \<times> string) option" where
  "SLUG at_start s =
     (case s of
        c1 # c2 # cs \<Rightarrow>
          if c1 = CHR ''['' \<and> \<not> line_terminator c2
          then (case lazy_until CHR '']'' cs of
                  None \<Rightarrow> None
                | Some (m, r) \<Rightarrow> Some (c1 # c2 # m, r))
          else None
      | _ \<Rightarrow> None)"

text \<open>\<^verbatim>\<open>CATCH_ALL = /\[\.\.\..+?\]/g\<close>.\<close>

definition CATCH_ALL :: "bool \<Rightarrow> string \<Rightarrow> (string \<times> string) option" where
  "CATCH_ALL at_start s =
     (if startsWith s ''[...''
      then (case drop 4 s of
              [] \<Rightarrow> None
            | c # cs \<Rightarrow>
                if line_terminator c then None
                else (case lazy_until CHR '']'' cs of
                        None \<Rightarrow> None
                      | Some (m, r) \<Rightarrow> Some (''[...'' @ c # m, r)))
      else None)"

text \<open>
  The matches of a global regular expression, from left to right: where the
  expression matches, the search goes on behind the match, and elsewhere one code unit
  further. (After an empty match the engine advances by one code unit; none of the
  three expressions above matches the empty string.)
\<close>

datatype piece = Unmatched char | Matched string

function scan :: "(bool \<Rightarrow> string \<Rightarrow> (string \<times> string) option) \<Rightarrow> bool \<Rightarrow> string \<Rightarrow> piece list" where
  "scan re at_start s =
     (case re at_start s of
        None \<Rightarrow> (case s of [] \<Rightarrow> [] | c # cs \<Rightarrow> Unmatched c # scan re False cs)
      | Some (m, r) \<Rightarrow>
          if length r < length s then Matched m # scan re False r
          else Matched m # (case s of [] \<Rightarrow> [] | c # cs \<Rightarrow> Unmatched c # scan re False cs))"
  by pat_completeness auto
termination
  by (relation "measure (\<lambda>(re, at_start, s). length s)") auto

declare scan.simps [simp del]

text \<open>
  \<^verbatim>\<open>s.match(re)\<close> for a global expression: every matched text, or null when there
  is none.
\<close>

definition match :: "string \<Rightarrow> (bool \<Rightarrow> string \<Rightarrow> (string \<times> string) option) \<Rightarrow> string list option" where
  "match s re =
     (let ms = concat (map (\<lambda>p. case p of Unmatched c \<Rightarrow> [] | Matched m \<Rightarrow> [m]) (scan re True s))
      in if ms = [] then None else Some ms)"

text \<open>
  \<^verbatim>\<open>s.replaceAll(re, f)\<close> with a replacer function: the text outside the matches
  stays, and each match gives way to the replacer's result. A replacement string without a
  replacement pattern, as \<^verbatim>\<open>''\<close>, \<^verbatim>\<open>'${string}'\<close> and
  \<^verbatim>\<open>'${Router.SingleRoutePart<T>}'\<close> are, is the constant replacer.
\<close>

definition replace_pieces :: "(string \<Rightarrow> string) \<Rightarrow> piece list \<Rightarrow> string" where
  "replace_pieces f ps = concat (map (\<lambda>p. case p of Unmatched c \<Rightarrow> [c] | Matched m \<Rightarrow> f m) ps)"

definition replaceAll :: "string \<Rightarrow> (bool \<Rightarrow> string \<Rightarrow> (string \<times> string) option) \<Rightarrow> (string \<Rightarrow> string) \<Rightarrow> string" where
  "replaceAll s re f = replace_pieces f (scan re True s)"

subsection \<open>contextKeyToType\<close>

definition urlParams :: string where
  "urlParams = ''${`?${string}` | `#${string}` | '' @ [CHR 0x27, CHR 0x27] @ ''}''"

text \<open>The alternatives of a group: \<^verbatim>\<open>groupsAsType\<close> after the optional push.\<close>

definition groupsAsType :: "string \<Rightarrow> bool \<Rightarrow> string list" where
  "groupsAsType groups partialTypedGroups =
     (let groupsAsType = map (\<lambda>group. [CHR 0x27] @ ''/('' @ group @ '')'' @ [CHR 0x27])
                             (split groups CHR '','')
      in if partialTypedGroups then groupsAsType @ [[CHR 0x27, CHR 0x27]] else groupsAsType)"

text \<open>The replacer of lines 207 to 222, applied to each match of \<^verbatim>\<open>GROUP\<close>.\<close>

definition group_replacer :: "bool \<Rightarrow> string \<Rightarrow> string" where
  "group_replacer partialTypedGroups m =
     (let groups = slice m 2 (- 1)
      in if length groups > 1 \<or> partialTypedGroups
         then ''${'' @ join (groupsAsType groups partialTypedGroups) '' | '' @ ''}''
         else m)"

definition typeWithGroups :: "string \<Rightarrow> bool \<Rightarrow> string" where
  "typeWithGroups contextKey partialTypedGroups =
     replaceAll contextKey GROUP (group_replacer partialTypedGroups)"

text \<open>\<^verbatim>\<open>contextKey.replaceAll(GROUP, '') || '/'\<close>, the initial value of \<^verbatim>\<open>typeWithoutGroups\<close>.\<close>

definition groupsRemoved :: "string \<Rightarrow> string" where
  "groupsRemoved contextKey =
     (let removed = replaceAll contextKey GROUP (\<lambda>m. '''')
      in if removed = [] then ''/'' else removed)"

text \<open>The final value of \<^verbatim>\<open>typeWithoutGroups\<close>.\<close>

definition typeWithoutGroups :: "string \<Rightarrow> string" where
  "typeWithoutGroups contextKey =
     (if startsWith (groupsRemoved contextKey) urlParams
      then ''/'' @ groupsRemoved contextKey
      else groupsRemoved contextKey)"

definition contextKeyToType :: "string \<Rightarrow> bool \<Rightarrow> string" where
  "contextKeyToType contextKey partialTypedGroups =
     (if match contextKey GROUP = None then ''`'' @ contextKey @ ''`''
      else ''`'' @ typeWithGroups contextKey partialTypedGroups @ ''` | `''
             @ typeWithoutGroups contextKey @ ''`'')"

subsection \<open>groupRouteNodes\<close>

text \<open>
  A node of the route tree, with the fields that \<^verbatim>\<open>groupRouteNodes\<close> reads. The
  type \<^verbatim>\<open>RouteNode\<close> is declared outside this file; \<open>node_generated\<close> and
  \<open>node_dynamic\<close> hold the truthiness of the fields \<^verbatim>\<open>generated\<close> and \<^verbatim>\<open>dynamic\<close>,
  which is all the code tests.
\<close>

datatype RouteNode =
  RouteNode (node_type: string) (node_route: string) (node_contextKey: string)
            (node_generated: bool) (node_dynamic: bool) (node_children: "RouteNode list")

text \<open>
  The accumulator: \<^verbatim>\<open>static\<close> is a \<^verbatim>\<open>Set<string>\<close> and \<^verbatim>\<open>dynamic\<close> a
  \<^verbatim>\<open>Map<string, string[]>\<close>. Both iterate in insertion order, so they are lists:
  adding a present element changes nothing, and setting a present key keeps its place.
\<close>

record groupedContextKeys =
  static :: "string list"
  dynamic :: "(string \<times> string list) list"

definition Set_add :: "string list \<Rightarrow> string \<Rightarrow> string list" where
  "Set_add xs x = (if x \<in> set xs then xs else xs @ [x])"

fun Map_set :: "(string \<times> string list) list \<Rightarrow> string \<Rightarrow> string list \<Rightarrow> (string \<times> string list) list" where
  "Map_set [] k v = [(k, v)]"
| "Map_set ((k', v') # m) k v = (if k' = k then (k, v) # m else (k', v') # Map_set m k v)"

text \<open>\<^verbatim>\<open>.replace(/\/index$/, '')\<close>, \<^verbatim>\<open>.replace(/^\./, '')\<close> and \<^verbatim>\<open>.replace(/\\/g, '/')\<close>.\<close>

definition remove_trailing_index :: "string \<Rightarrow> string" where
  "remove_trailing_index s = (if endsWith s ''/index'' then take (length s - 6) s else s)"

definition remove_leading_dot :: "string \<Rightarrow> string" where
  "remove_leading_dot s = (if startsWith s ''.'' then drop 1 s else s)"

definition backslashes_to_slashes :: "string \<Rightarrow> string" where
  "backslashes_to_slashes s = map (\<lambda>c. if c = CHR 0x5C then CHR ''/'' else c) s"

text \<open>
  Lines 157 to 176: the value of \<^verbatim>\<open>routeKey\<close> of a route node.
  \<^verbatim>\<open>removeSupportedExtensions\<close> is imported from another file and is a parameter.
\<close>

definition routeKey :: "(string \<Rightarrow> string) \<Rightarrow> bool \<Rightarrow> string \<Rightarrow> string \<Rightarrow> string" where
  "routeKey removeSupportedExtensions generated route contextKey =
     (let k = (if generated then route
               else remove_leading_dot (remove_trailing_index (removeSupportedExtensions contextKey)));
          k = (if k = [] then ''/'' else k);
          k = (if \<not> startsWith k ''/'' then ''/'' @ k else k)
      in backslashes_to_slashes k)"

text \<open>Lines 181 to 188: the parameter names stored with a dynamic key.\<close>

definition paramsNames :: "string \<Rightarrow> string list" where
  "paramsNames k =
     map (\<lambda>segment. slice segment 1 (- 1))
         (filter (\<lambda>segment. startsWith segment ''['' \<and> endsWith segment '']'') (split k CHR ''/''))"

fun groupRouteNodes :: "(string \<Rightarrow> string) \<Rightarrow> RouteNode option \<Rightarrow> groupedContextKeys \<Rightarrow> groupedContextKeys" where
  "groupRouteNodes removeSupportedExtensions None groupedContextKeys = groupedContextKeys"
| "groupRouteNodes removeSupportedExtensions
       (Some (RouteNode type route contextKey generated is_dynamic children)) groupedContextKeys =
     (if type \<noteq> ''route''
      then (if route = []
            then fold (\<lambda>child. groupRouteNodes removeSupportedExtensions (Some child))
                      children groupedContextKeys
            else groupedContextKeys)
      else
        (let k = routeKey removeSupportedExtensions generated route contextKey;
             grouped =
               (if is_dynamic
                then groupedContextKeys\<lparr>dynamic := Map_set (dynamic groupedContextKeys) k (paramsNames k)\<rparr>
                else groupedContextKeys\<lparr>static := Set_add (static groupedContextKeys) k\<rparr>)
         in fold (\<lambda>child. groupRouteNodes removeSupportedExtensions (Some child)) children grouped))"

text \<open>The default value of the second parameter.\<close>

definition empty_groupedContextKeys :: groupedContextKeys where
  "empty_groupedContextKeys = \<lparr>static = [], dynamic = []\<rparr>"

subsection \<open>getTypedRoutesDeclarationFile\<close>

text \<open>Lines 70 to 73 and 78 to 81: the field of one parameter, on the input and the output side.\<close>

definition param_key :: "string \<Rightarrow> string" where
  "param_key param = (if startsWith param ''...'' then slice_from param 3 else param)"

definition param_input_value :: "string \<Rightarrow> string" where
  "param_input_value param =
     (if startsWith param ''...'' then ''(string | number)[]'' else ''string | number'')"

definition param_output_value :: "string \<Rightarrow> string" where
  "param_output_value param = (if startsWith param ''...'' then ''string[]'' else ''string'')"

definition inputParams :: "string list \<Rightarrow> string" where
  "inputParams names =
     join (map (\<lambda>param. param_key param @ '': '' @ param_input_value param @ '';'') names) []"

definition outputParams :: "string list \<Rightarrow> string" where
  "outputParams names =
     join (map (\<lambda>param. param_key param @ '': '' @ param_output_value param @ '';'') names) []"

text \<open>The six arrays that the two loops fill.\<close>

record routeArrays =
  staticRoutesStrings :: "string list"
  staticRouteInputObjects :: "string list"
  staticRouteOutputObjects :: "string list"
  dynamicRouteStrings :: "string list"
  dynamicRouteInputObjects :: "string list"
  dynamicRouteOutputObjects :: "string list"

definition initial_routeArrays :: routeArrays where
  "initial_routeArrays =
     \<lparr>staticRoutesStrings = [''Router.RelativePathString'', ''Router.ExternalPathString''],
      staticRouteInputObjects =
        [''{ pathname: Router.RelativePathString, params?: Router.UnknownInputParams }'',
         ''{ pathname: Router.ExternalPathString, params?: Router.UnknownInputParams }''],
      staticRouteOutputObjects =
        [''{ pathname: Router.RelativePathString, params?: Router.UnknownOutputParams }'',
         ''{ pathname: Router.ExternalPathString, params?: Router.UnknownOutputParams }''],
      dynamicRouteStrings = [],
      dynamicRouteInputObjects = [],
      dynamicRouteOutputObjects = []\<rparr>"

text \<open>The body of the loop of lines 54 to 62.\<close>

definition push_static :: "bool \<Rightarrow> string \<Rightarrow> routeArrays \<Rightarrow> routeArrays" where
  "push_static partialTypedGroups type arrays =
     arrays\<lparr>staticRoutesStrings := staticRoutesStrings arrays
                @ [contextKeyToType (type @ urlParams) partialTypedGroups],
            staticRouteInputObjects := staticRouteInputObjects arrays
                @ [''{ pathname: '' @ contextKeyToType type partialTypedGroups
                   @ ''; params?: Router.UnknownInputParams; }''],
            staticRouteOutputObjects := staticRouteOutputObjects arrays
                @ [''{ pathname: '' @ contextKeyToType type partialTypedGroups
                   @ ''; params?: Router.UnknownOutputParams; }'']\<rparr>"

text \<open>The body of the loop of lines 68 to 100.\<close>

definition push_dynamic :: "bool \<Rightarrow> string \<times> string list \<Rightarrow> routeArrays \<Rightarrow> routeArrays" where
  "push_dynamic partialTypedGroups entry arrays =
     (let dynamicRouteTemplate = fst entry; names = snd entry
      in arrays\<lparr>dynamicRouteStrings := dynamicRouteStrings arrays
                   @ [contextKeyToType
                        (replaceAll (replaceAll dynamicRouteTemplate CATCH_ALL (\<lambda>m. ''${string}''))
                                    SLUG (\<lambda>m. ''${Router.SingleRoutePart<T>}''))
                        partialTypedGroups],
                dynamicRouteInputObjects := dynamicRouteInputObjects arrays
                   @ [''{ pathname: '' @ contextKeyToType dynamicRouteTemplate partialTypedGroups
                      @ '', params: Router.UnknownInputParams & { '' @ inputParams names @ '' } }''],
                dynamicRouteOutputObjects := dynamicRouteOutputObjects arrays
                   @ [''{ pathname: '' @ contextKeyToType dynamicRouteTemplate partialTypedGroups
                      @ '', params: Router.UnknownOutputParams & { '' @ outputParams names @ '' } }'']\<rparr>)"

definition fill_routeArrays :: "groupedContextKeys \<Rightarrow> bool \<Rightarrow> routeArrays" where
  "fill_routeArrays groupedNodes partialTypedGroups =
     fold (push_dynamic partialTypedGroups) (dynamic groupedNodes)
       (fold (push_static partialTypedGroups) (static groupedNodes) initial_routeArrays)"

definition tsExpectError :: "bool \<Rightarrow> string" where
  "tsExpectError testIgnoreComments =
     (if testIgnoreComments
      then ''// @ts-ignore-error -- During tests we need to ignore the '' @ [CHR 0x22]
           @ ''duplicate'' @ [CHR 0x22]
           @ '' declaration error, as multiple fixture declare types '' @ [CHR 0x0A] @ ''      ''
      else [])"

text \<open>The template of lines 116 to 130.\<close>

definition declaration_file :: "bool \<Rightarrow> string \<Rightarrow> string \<Rightarrow> string \<Rightarrow> string" where
  "declaration_file testIgnoreComments hrefInputParams hrefOutputParams href =
     ''/* eslint-disable */'' @ [CHR 0x0A]
     @ ''import * as Router from 'expo-router';'' @ [CHR 0x0A]
     @ [CHR 0x0A]
     @ ''export * from 'expo-router';'' @ [CHR 0x0A]
     @ [CHR 0x0A]
     @ ''declare module 'expo-router' {'' @ [CHR 0x0A]
     @ ''  export namespace ExpoRouter {'' @ [CHR 0x0A]
     @ ''    export interface __routes<T extends string | object = string> {'' @ [CHR 0x0A]
     @ ''      '' @ tsExpectError testIgnoreComments @ ''hrefInputParams: '' @ hrefInputParams
         @ '';'' @ [CHR 0x0A]
     @ ''      '' @ tsExpectError testIgnoreComments @ ''hrefOutputParams: '' @ hrefOutputParams
         @ '';'' @ [CHR 0x0A]
     @ ''      '' @ tsExpectError testIgnoreComments @ ''href: '' @ href @ '';'' @ [CHR 0x0A]
     @ ''    }'' @ [CHR 0x0A]
     @ ''  }'' @ [CHR 0x0A]
     @ ''}'' @ [CHR 0x0A]"

text \<open>
  \<^verbatim>\<open>getRoutes\<close> is imported from another file: it is a parameter, already applied to
  the fixed options of lines 31 to 36, that returns a tree or null (\<open>Inr\<close>) or throws
  (\<open>Inl\<close>). The \<^verbatim>\<open>try\<close> statement leaves \<^verbatim>\<open>routeNode\<close> null when it throws.
\<close>

definition getTypedRoutesDeclarationFile ::
  "('ctx \<Rightarrow> 'e + RouteNode option) \<Rightarrow> (string \<Rightarrow> string) \<Rightarrow> 'ctx \<Rightarrow> bool \<Rightarrow> bool \<Rightarrow> string" where
  "getTypedRoutesDeclarationFile getRoutes removeSupportedExtensions ctx
       partialTypedGroups testIgnoreComments =
     (let routeNode = (case getRoutes ctx of Inl e \<Rightarrow> None | Inr node \<Rightarrow> node);
          groupedNodes = groupRouteNodes removeSupportedExtensions routeNode empty_groupedContextKeys;
          arrays = fill_routeArrays groupedNodes partialTypedGroups;
          href = join (staticRoutesStrings arrays @ staticRouteInputObjects arrays
                       @ dynamicRouteStrings arrays @ dynamicRouteInputObjects arrays) '' | '';
          hrefInputParams =
            join (staticRouteInputObjects arrays @ dynamicRouteInputObjects arrays) '' | '';
          hrefOutputParams =
            join (staticRouteOutputObjects arrays @ dynamicRouteOutputObjects arrays) '' | ''
      in declaration_file testIgnoreComments hrefInputParams hrefOutputParams href)"

subsection \<open>Reference definitions\<close>

text \<open>
  The route nodes that \<^verbatim>\<open>groupRouteNodes\<close> records, in the order of the traversal,
  each with its key and its \<^verbatim>\<open>dynamic\<close> flag: the same traversal as
  \<^const>\<open>groupRouteNodes\<close>, without the accumulator. It serves to state which keys
  a tree contributes.
\<close>

fun visited :: "(string \<Rightarrow> string) \<Rightarrow> RouteNode option \<Rightarrow> (string \<times> bool) list" where
  "visited removeSupportedExtensions None = []"
| "visited removeSupportedExtensions
       (Some (RouteNode type route contextKey generated is_dynamic children)) =
     (if type \<noteq> ''route''
      then (if route = []
            then concat (map (\<lambda>child. visited removeSupportedExtensions (Some child)) children)
            else [])
      else (routeKey removeSupportedExtensions generated route contextKey, is_dynamic)
           # concat (map (\<lambda>child. visited removeSupportedExtensions (Some child)) children))"

text \<open>
  The parameter extraction in the words of the specification: the segments of a key
  between \<^verbatim>\<open>/\<close> that start with \<^verbatim>\<open>[\<close> and end with \<^verbatim>\<open>]\<close>, from left to right, each
  without its first and last code unit.
\<close>

definition bracketSegments :: "string \<Rightarrow> string list" where
  "bracketSegments k =
     map (\<lambda>segment. butlast (tl segment))
         (filter (\<lambda>segment. segment \<noteq> [] \<and> hd segment = CHR ''['' \<and> last segment = CHR '']'')
                 (split k CHR ''/''))"

text \<open>
  The parameters in the words of the specification: the name without a leading
  \<^verbatim>\<open>...\<close>, and the flag that says whether the marker was there.
\<close>

definition extractParameters :: "string \<Rightarrow> (string \<times> bool) list" where
  "extractParameters k =
     map (\<lambda>inner. if take 3 inner = ''...'' then (drop 3 inner, True) else (inner, False))
         (bracketSegments k)"

subsection \<open>Example inputs\<close>

text \<open>
  A tree as the tree builder returns it: the generated root layout with five route
  files. \<open>strip_tsx\<close> stands for \<^verbatim>\<open>removeSupportedExtensions\<close> on these keys.
\<close>

definition example_tree :: RouteNode where
  "example_tree = RouteNode ''layout'' [] [] True False
     [RouteNode ''route'' ''about'' ''./about.tsx'' False False [],
      RouteNode ''route'' ''index'' ''./index.tsx'' False False [],
      RouteNode ''route'' ''blog/[id]'' ''./blog/[id].tsx'' False True [],
      RouteNode ''route'' ''blog/[...slug]'' ''./blog/[...slug].tsx'' False True [],
      RouteNode ''route'' ''post-[id]'' ''./post-[id].tsx'' False True []]"

definition strip_tsx :: "string \<Rightarrow> string" where
  "strip_tsx s = (if endsWith s ''.tsx'' then take (length s - 4) s else s)"

text \<open>
  Two route nodes of the files \<^verbatim>\<open>./[id].tsx\<close> and \<^verbatim>\<open>./[id]/index.tsx\<close>, which have one
  key, that disagree on the \<^verbatim>\<open>dynamic\<close> flag.
\<close>

definition clash_tree :: RouteNode where
  "clash_tree = RouteNode ''layout'' [] [] True False
     [RouteNode ''route'' ''[id]'' ''./[id].tsx'' False True [],
      RouteNode ''route'' ''[id]/index'' ''./[id]/index.tsx'' False False []]"

text \<open>A route file whose context key is written with a backslash.\<close>

definition backslash_node :: RouteNode where
  "backslash_node = RouteNode ''route'' [] (''.'' @ [CHR 0x5C] @ ''a.tsx'') False False []"

section \<open>Properties\<close>

subsection \<open>The matches of GROUP\<close>

lemma replace_pieces_append:
  "replace_pieces f (ps @ qs) = replace_pieces f ps @ replace_pieces f qs"
  by (simp add: replace_pieces_def)

lemma replace_pieces_Matched: "replace_pieces f (Matched m # ps) = f m @ replace_pieces f ps"
  by (simp add: replace_pieces_def)

lemma replace_pieces_Unmatched: "replace_pieces f (Unmatched c # ps) = c # replace_pieces f ps"
  by (simp add: replace_pieces_def)

lemma replace_pieces_Nil: "replace_pieces f [] = []"
  by (simp add: replace_pieces_def)

lemma lazy_until_splits: "lazy_until stop s = Some (m, r) \<Longrightarrow> s = m @ r \<and> m \<noteq> []"
  by (induction s arbitrary: m) (auto split: if_splits option.splits)

lemma GROUP_splits: "GROUP b s = Some (m, r) \<Longrightarrow> s = m @ r \<and> length r < length s"
proof -
  assume a: "GROUP b s = Some (m, r)"
  show ?thesis
  proof (cases "b \<and> startsWith s ''(''")
    case True
    with a obtain m' where l: "lazy_until CHR '')'' (drop 1 s) = Some (m', r)" and m: "m = ''('' @ m'"
      by (auto simp: GROUP_def split: option.splits)
    from True have "s = ''('' @ drop 1 s" by (cases s) (auto simp: startsWith_def)
    with lazy_until_splits [OF l] m have "s = m @ r" by simp
    with m show ?thesis by simp
  next
    case False
    with a have sw: "startsWith s ''/(''"
      by (auto simp: GROUP_def split: if_splits)
    with a False obtain m' where l: "lazy_until CHR '')'' (drop 2 s) = Some (m', r)" and m: "m = ''/('' @ m'"
      by (auto simp: GROUP_def split: option.splits if_splits)
    from sw have "s = ''/('' @ drop 2 s"
      by (cases s; cases "tl s") (auto simp: startsWith_def)
    with lazy_until_splits [OF l] m have "s = m @ r" by simp
    with m show ?thesis by simp
  qed
qed

lemma scan_GROUP_Some:
  "GROUP b s = Some (m, r) \<Longrightarrow> scan GROUP b s = Matched m # scan GROUP False r"
  by (subst scan.simps) (simp add: GROUP_splits)

lemma scan_GROUP_None:
  "GROUP b (c # cs) = None \<Longrightarrow> scan GROUP b (c # cs) = Unmatched c # scan GROUP False cs"
  by (subst scan.simps) simp

lemma scan_GROUP_restores: "replace_pieces (\<lambda>m. m) (scan GROUP b s) = s"
proof (induction "length s" arbitrary: s b rule: less_induct)
  case less
  show ?case
  proof (cases "GROUP b s")
    case None
    show ?thesis
    proof (cases s)
      case Nil
      with None show ?thesis by (subst scan.simps) (simp add: replace_pieces_Nil)
    next
      case (Cons c cs)
      with None less [of cs False] show ?thesis
        by (simp add: scan_GROUP_None replace_pieces_Unmatched)
    qed
  next
    case (Some mr)
    obtain m r where mr: "mr = (m, r)" by (cases mr)
    from Some mr have g: "GROUP b s = Some (m, r)" by simp
    from GROUP_splits [OF g] have s1: "s = m @ r" and s2: "length r < length s" by blast+
    have "replace_pieces (\<lambda>m. m) (scan GROUP b s) = m @ replace_pieces (\<lambda>m. m) (scan GROUP False r)"
      by (simp add: scan_GROUP_Some [OF g] replace_pieces_Matched)
    also have "\<dots> = m @ r" by (simp add: less [OF s2])
    finally show ?thesis using s1 by simp
  qed
qed

lemma lazy_until_label:
  "stop \<notin> set l \<Longrightarrow> \<forall>c \<in> set l. \<not> line_terminator c
     \<Longrightarrow> lazy_until stop (l @ stop # rest) = Some (l @ [stop], rest)"
  by (induction l) auto

lemma GROUP_at_group:
  assumes "CHR '')'' \<notin> set l" and "\<forall>c \<in> set l. \<not> line_terminator c"
  shows "GROUP b (''/('' @ l @ '')'' @ rest) = Some (''/('' @ l @ '')'', rest)"
  using lazy_until_label [OF assms, of rest]
  by (simp add: GROUP_def startsWith_def)

lemma scan_groups:
  assumes "\<forall>l \<in> set labels. CHR '')'' \<notin> set l \<and> (\<forall>c \<in> set l. \<not> line_terminator c)"
  shows "scan GROUP b (concat (map (\<lambda>l. ''/('' @ l @ '')'') labels) @ rest)
           = map (\<lambda>l. Matched (''/('' @ l @ '')'')) labels @ scan GROUP (b \<and> labels = []) rest"
  using assms
proof (induction labels arbitrary: b)
  case Nil
  then show ?case by simp
next
  case (Cons l labels)
  then have g: "GROUP b (''/('' @ l @ '')'' @ concat (map (\<lambda>l. ''/('' @ l @ '')'') labels) @ rest)
                 = Some (''/('' @ l @ '')'', concat (map (\<lambda>l. ''/('' @ l @ '')'') labels) @ rest)"
    by (intro GROUP_at_group) auto
  have "scan GROUP b (concat (map (\<lambda>l. ''/('' @ l @ '')'') (l # labels)) @ rest)
          = Matched (''/('' @ l @ '')'') # scan GROUP False (concat (map (\<lambda>l. ''/('' @ l @ '')'') labels) @ rest)"
    using scan_GROUP_Some [OF g] by simp
  also have "scan GROUP False (concat (map (\<lambda>l. ''/('' @ l @ '')'') labels) @ rest)
          = map (\<lambda>l. Matched (''/('' @ l @ '')'')) labels @ scan GROUP False rest"
    using Cons.IH [of False] Cons.prems by simp
  finally show ?case by simp
qed

lemma split_not_Nil: "split s sep \<noteq> []"
  by (induction s) (auto split: list.splits)

lemma join_split: "join (split s sep) [sep] = s"
proof (induction s)
  case Nil
  then show ?case by simp
next
  case (Cons c cs)
  obtain x xs where x: "split cs sep = x # xs"
    using split_not_Nil [of cs sep] by (cases "split cs sep") auto
  with Cons show ?case by (cases xs) auto
qed

lemma split_pieces_free: "x \<in> set (split s sep) \<Longrightarrow> sep \<notin> set x"
  by (induction s arbitrary: x) (auto split: if_splits list.splits)

lemma split_two:
  assumes "split s sep = [a, b]"
  shows "s = a @ sep # b" and "sep \<notin> set a" and "sep \<notin> set b"
proof -
  from join_split [of s sep] assms show "s = a @ sep # b" by simp
  from split_pieces_free [of a s sep] assms show "sep \<notin> set a" by simp
  from split_pieces_free [of b s sep] assms show "sep \<notin> set b" by simp
qed

lemma lazy_until_ends: "lazy_until stop s = Some (m, r) \<Longrightarrow> \<exists>inner. m = inner @ [stop]"
proof (induction s arbitrary: m)
  case Nil
  then show ?case by simp
next
  case (Cons c cs)
  show ?case
  proof (cases "c = stop")
    case True
    with Cons.prems show ?thesis by simp
  next
    case False
    with Cons.prems obtain m' where l: "lazy_until stop cs = Some (m', r)" and m: "m = c # m'"
      by (auto split: if_splits option.splits)
    from Cons.IH [OF l] obtain inner where "m' = inner @ [stop]" by blast
    with m have "m = (c # inner) @ [stop]" by simp
    then show ?thesis by blast
  qed
qed

lemma GROUP_match_shape:
  assumes "GROUP b s = Some (m, r)" and "b \<longrightarrow> startsWith s ''/''"
  shows "\<exists>inner. m = ''/('' @ inner @ '')''"
proof -
  have nb: "\<not> (b \<and> startsWith s ''('')"
    using assms(2) by (cases s) (auto simp: startsWith_def)
  with assms(1) obtain m' where l: "lazy_until CHR '')'' (drop 2 s) = Some (m', r)" and m: "m = ''/('' @ m'"
    by (auto simp: GROUP_def split: option.splits if_splits)
  from lazy_until_ends [OF l] m show ?thesis by auto
qed

lemma scan_GROUP_Nil: "scan GROUP b [] = []"
  by (subst scan.simps) (simp add: GROUP_def startsWith_def)

lemma scan_GROUP_match_shape:
  "Matched m \<in> set (scan GROUP b s) \<Longrightarrow> b \<longrightarrow> startsWith s ''/''
     \<Longrightarrow> \<exists>inner. m = ''/('' @ inner @ '')''"
proof (induction "length s" arbitrary: s b rule: less_induct)
  case less
  show ?case
  proof (cases "GROUP b s")
    case None
    show ?thesis
    proof (cases s)
      case Nil
      with less.prems show ?thesis by (simp add: scan_GROUP_Nil)
    next
      case (Cons c cs)
      with None less.prems(1) have "Matched m \<in> set (scan GROUP False cs)"
        by (simp add: scan_GROUP_None)
      with less.hyps [of cs False] Cons show ?thesis by simp
    qed
  next
    case (Some mr)
    obtain m' r where mr: "mr = (m', r)" by (cases mr)
    from Some mr have g: "GROUP b s = Some (m', r)" by simp
    from GROUP_splits [OF g] have s2: "length r < length s" by blast
    from less.prems(1) have "m = m' \<or> Matched m \<in> set (scan GROUP False r)"
      by (simp add: scan_GROUP_Some [OF g])
    then show ?thesis
    proof
      assume "m = m'"
      with GROUP_match_shape [OF g less.prems(2)] show ?thesis by simp
    next
      assume "Matched m \<in> set (scan GROUP False r)"
      with less.hyps [OF s2, of False] show ?thesis by simp
    qed
  qed
qed

subsection \<open>The pattern synthesizer\<close>

lemma slice_group: "slice (''/('' @ inner @ '')'') 2 (- 1) = inner"
  by (simp add: slice_def relative_index_def Let_def)

lemma split_no_separator: "sep \<notin> set s \<Longrightarrow> split s sep = [s]"
  by (induction s) auto

lemma split_at_separator: "sep \<notin> set a \<Longrightarrow> split (a @ sep # rest) sep = a # split rest sep"
  by (induction a) auto

lemma match_Some_iff:
  "(match s re \<noteq> None) = (\<exists>m. Matched m \<in> set (scan re True s))"
proof -
  define ms where "ms = concat (map (\<lambda>p. case p of Unmatched c \<Rightarrow> [] | Matched m \<Rightarrow> [m]) (scan re True s))"
  have "(concat (map (\<lambda>p. case p of Unmatched c \<Rightarrow> [] | Matched m \<Rightarrow> [m]) ps) \<noteq> [])
          = (\<exists>m. Matched m \<in> set ps)" for ps
    by (induction ps) (auto split: piece.splits)
  then have "(ms \<noteq> []) = (\<exists>m. Matched m \<in> set (scan re True s))"
    unfolding ms_def .
  moreover have "match s re = (if ms = [] then None else Some ms)"
    by (simp only: match_def Let_def ms_def)
  ultimately show ?thesis by (cases "ms = []") simp_all
qed

lemma contextKeyToType_with_group:
  "match key GROUP \<noteq> None \<Longrightarrow>
     contextKeyToType key p = ''`'' @ typeWithGroups key p @ ''` | `'' @ typeWithoutGroups key @ ''`''"
  by (auto simp: contextKeyToType_def)

text \<open>
  Without \<^verbatim>\<open>partialTypedGroups\<close>, the replacer keeps a group segment exactly when the
  text between its parentheses has at most one code unit.
\<close>

lemma group_replacer_literal_iff_short:
  "(group_replacer False (''/('' @ inner @ '')'') = ''/('' @ inner @ '')'') = (length inner \<le> 1)"
proof (cases "length inner \<le> 1")
  case True
  with slice_group [of inner] show ?thesis by (simp add: group_replacer_def Let_def)
next
  case False
  with slice_group [of inner]
  have "group_replacer False (''/('' @ inner @ '')'')
               = ''${'' @ join (groupsAsType inner False) '' | '' @ ''}''"
    by (simp add: group_replacer_def Let_def)
  with False show ?thesis by simp
qed

text \<open>
  Claim C2 says that, without \<^verbatim>\<open>partialTypedGroups\<close>, a group segment with one label
  stays a literal whatever the length of the label. The replacer tests the length of
  the text between the parentheses, not the number of labels: for the key
  \<^verbatim>\<open>/(app)/home\<close> the segment \<^verbatim>\<open>/(app)\<close> becomes a placeholder with the one
  alternative \<^verbatim>\<open>'/(app)'\<close>, while the label of one code unit in \<^verbatim>\<open>/(a)/home\<close> stays
  a literal.
\<close>

theorem C2_single_label_group_becomes_placeholder:
  "typeWithGroups ''/(app)/home'' False = ''${'/(app)'}/home''
   \<and> contextKeyToType ''/(app)/home'' False = ''`${'/(app)'}/home` | `/home`''
   \<and> typeWithGroups ''/(a)/home'' False = ''/(a)/home''"
  by code_simp

text \<open>
  Claim C3: let a key that starts with \<^verbatim>\<open>/\<close>, as every normalized key does, contain a
  group segment, that is a match \<open>m\<close> of \<^verbatim>\<open>GROUP\<close>, whose inner content
  \<^verbatim>\<open>m.slice(2, -1)\<close> splits on the comma into the two labels \<open>a\<close> and \<open>b\<close>, not both
  empty. Then the segment is \<^verbatim>\<open>/(a,b)\<close>; its alternatives are \<^verbatim>\<open>'/(a)'\<close> and
  \<^verbatim>\<open>'/(b)'\<close>, and with \<^verbatim>\<open>partialTypedGroups\<close> the empty string in addition; and the
  result is the key with the segment replaced by the placeholder of these alternatives
  (the text before and after treated by the same replacer), in a union with the
  groups-removed form of the key.
\<close>

theorem C3_two_labels_enumerated:
  assumes "startsWith key ''/''"
      and "scan GROUP True key = before @ Matched m # after"
      and "split (slice m 2 (- 1)) CHR '','' = [a, b]"
      and "a \<noteq> [] \<or> b \<noteq> []"
  shows "m = ''/('' @ a @ '','' @ b @ '')''
       \<and> groupsAsType (slice m 2 (- 1)) False
           = [[CHR 0x27] @ ''/('' @ a @ '')'' @ [CHR 0x27], [CHR 0x27] @ ''/('' @ b @ '')'' @ [CHR 0x27]]
       \<and> groupsAsType (slice m 2 (- 1)) True
           = [[CHR 0x27] @ ''/('' @ a @ '')'' @ [CHR 0x27], [CHR 0x27] @ ''/('' @ b @ '')'' @ [CHR 0x27],
              [CHR 0x27, CHR 0x27]]
       \<and> contextKeyToType key False
           = ''`'' @ replace_pieces (group_replacer False) before
             @ ''${'/('' @ a @ '')' | '/('' @ b @ '')'}''
             @ replace_pieces (group_replacer False) after
             @ ''` | `'' @ typeWithoutGroups key @ ''`''
       \<and> contextKeyToType key True
           = ''`'' @ replace_pieces (group_replacer True) before
             @ ''${'/('' @ a @ '')' | '/('' @ b @ '')' | '' @ [CHR 0x27, CHR 0x27] @ ''}''
             @ replace_pieces (group_replacer True) after
             @ ''` | `'' @ typeWithoutGroups key @ ''`''"
proof -
  have "Matched m \<in> set (scan GROUP True key)"
    unfolding assms(2) by simp
  from scan_GROUP_match_shape [OF this] assms(1)
  obtain inner where inner: "m = ''/('' @ inner @ '')''" by blast
  have sl: "slice m 2 (- 1) = inner"
    unfolding inner by (rule slice_group)
  from assms(3) have sp: "split inner CHR '','' = [a, b]"
    unfolding sl .
  from split_two(1) [OF sp] have i: "inner = a @ '','' @ b" by simp
  from i inner have 1: "m = ''/('' @ a @ '','' @ b @ '')''" by simp
  have 2: "groupsAsType (slice m 2 (- 1)) False
           = [[CHR 0x27] @ ''/('' @ a @ '')'' @ [CHR 0x27], [CHR 0x27] @ ''/('' @ b @ '')'' @ [CHR 0x27]]"
    unfolding sl by (simp add: groupsAsType_def sp)
  have 3: "groupsAsType (slice m 2 (- 1)) True
           = [[CHR 0x27] @ ''/('' @ a @ '')'' @ [CHR 0x27], [CHR 0x27] @ ''/('' @ b @ '')'' @ [CHR 0x27],
              [CHR 0x27, CHR 0x27]]"
    unfolding sl by (simp add: groupsAsType_def sp)
  have len: "length (slice m 2 (- 1)) > 1"
    unfolding sl i using assms(4) by (cases a; cases b) auto
  have rF: "group_replacer False m = ''${'/('' @ a @ '')' | '/('' @ b @ '')'}''"
    using 2 len by (simp add: group_replacer_def Let_def)
  have rT: "group_replacer True m
              = ''${'/('' @ a @ '')' | '/('' @ b @ '')' | '' @ [CHR 0x27, CHR 0x27] @ ''}''"
    using 3 by (simp add: group_replacer_def Let_def)
  have g: "match key GROUP \<noteq> None"
    unfolding match_Some_iff assms(2) by auto
  have 4: "contextKeyToType key False
           = ''`'' @ replace_pieces (group_replacer False) before
             @ ''${'/('' @ a @ '')' | '/('' @ b @ '')'}''
             @ replace_pieces (group_replacer False) after
             @ ''` | `'' @ typeWithoutGroups key @ ''`''"
    unfolding contextKeyToType_with_group [OF g] typeWithGroups_def replaceAll_def assms(2)
              replace_pieces_append replace_pieces_Matched rF
    by simp
  have 5: "contextKeyToType key True
           = ''`'' @ replace_pieces (group_replacer True) before
             @ ''${'/('' @ a @ '')' | '/('' @ b @ '')' | '' @ [CHR 0x27, CHR 0x27] @ ''}''
             @ replace_pieces (group_replacer True) after
             @ ''` | `'' @ typeWithoutGroups key @ ''`''"
    unfolding contextKeyToType_with_group [OF g] typeWithGroups_def replaceAll_def assms(2)
              replace_pieces_append replace_pieces_Matched rT
    by simp
  from 1 2 3 4 5 show ?thesis by (intro conjI)
qed

text \<open>The theorem of C3 at the keys \<^verbatim>\<open>/(a,b)/home\<close> and \<^verbatim>\<open>/x/(a,b)\<close>.\<close>

theorem C3_two_labels_enumerated_witness:
  "contextKeyToType ''/(a,b)/home'' False = ''`${'/(a)' | '/(b)'}/home` | `/home`''
   \<and> contextKeyToType ''/(a,b)/home'' True
       = ''`${'/(a)' | '/(b)' | '' @ [CHR 0x27, CHR 0x27] @ ''}/home` | `/home`''
   \<and> contextKeyToType ''/x/(a,b)'' False = ''`/x${'/(a)' | '/(b)'}` | `/x`''"
proof -
  have s1: "scan GROUP True ''/(a,b)/home'' = [] @ Matched ''/(a,b)'' # map Unmatched ''/home''"
    by code_simp
  have s2: "scan GROUP True ''/x/(a,b)'' = map Unmatched ''/x'' @ Matched ''/(a,b)'' # []"
    by code_simp
  have t: "typeWithoutGroups ''/(a,b)/home'' = ''/home''" "typeWithoutGroups ''/x/(a,b)'' = ''/x''"
    by code_simp+
  have k: "startsWith ''/(a,b)/home'' ''/''" "startsWith ''/x/(a,b)'' ''/''"
    by (simp_all add: startsWith_def)
  have sp: "split (slice ''/(a,b)'' 2 (- 1)) CHR '','' = [''a'', ''b'']"
    by code_simp
  have h: "''a'' \<noteq> [] \<or> ''b'' \<noteq> []"
    by simp
  note home = C3_two_labels_enumerated [OF k(1) s1 sp h]
  note x = C3_two_labels_enumerated [OF k(2) s2 sp h]
  have 1: "contextKeyToType ''/(a,b)/home'' False = ''`${'/(a)' | '/(b)'}/home` | `/home`''"
    using home [THEN conjunct2, THEN conjunct2, THEN conjunct2, THEN conjunct1]
    by (simp add: t replace_pieces_def)
  have 2: "contextKeyToType ''/(a,b)/home'' True
       = ''`${'/(a)' | '/(b)' | '' @ [CHR 0x27, CHR 0x27] @ ''}/home` | `/home`''"
    using home [THEN conjunct2, THEN conjunct2, THEN conjunct2, THEN conjunct2]
    by (simp add: t replace_pieces_def)
  have 3: "contextKeyToType ''/x/(a,b)'' False = ''`/x${'/(a)' | '/(b)'}` | `/x`''"
    using x [THEN conjunct2, THEN conjunct2, THEN conjunct2, THEN conjunct1]
    by (simp add: t replace_pieces_def)
  from 1 2 3 show ?thesis by (intro conjI)
qed

lemma not_startsWith_slash_urlParams: "\<not> startsWith ''/'' urlParams"
  by (simp add: startsWith_def urlParams_def)

text \<open>
  Claim C4 says that a key made only of one-label groups gives exactly one pattern, the
  key itself. A key that contains a group always gives a union of two patterns: for
  \<^verbatim>\<open>/(a)\<close> the second one is the root \<^verbatim>\<open>/\<close>.
\<close>

theorem C4_counterexample:
  "contextKeyToType ''/(a)'' False = ''`/(a)` | `/`''
   \<and> contextKeyToType ''/(a)/(b)'' False = ''`/(a)/(b)` | `/`''"
  by code_simp

text \<open>
  Claim C4, amended: for a key that consists of one or more one-label group segments,
  without \<^verbatim>\<open>partialTypedGroups\<close>, the result is the union of two patterns: the
  group-expanded expression, which is the concatenation of the replacer's results for
  the segments, and the groups-removed literal, which is \<^verbatim>\<open>/\<close>.
\<close>

theorem C4_groups_only_key:
  assumes "labels \<noteq> []"
      and "\<forall>l \<in> set labels. CHR '')'' \<notin> set l \<and> CHR '','' \<notin> set l
                              \<and> (\<forall>c \<in> set l. \<not> line_terminator c)"
      and "key = concat (map (\<lambda>l. ''/('' @ l @ '')'') labels)"
  shows "contextKeyToType key False = ''`'' @ typeWithGroups key False @ ''` | `/`''
       \<and> typeWithGroups key False
           = concat (map (\<lambda>l. group_replacer False (''/('' @ l @ '')'')) labels)
       \<and> typeWithoutGroups key = ''/''"
proof -
  have ok: "\<forall>l \<in> set labels. CHR '')'' \<notin> set l \<and> (\<forall>c \<in> set l. \<not> line_terminator c)"
    using assms(2) by blast
  have "scan GROUP True (key @ []) = map (\<lambda>l. Matched (''/('' @ l @ '')'')) labels @ scan GROUP (True \<and> labels = []) []"
    unfolding assms(3) by (rule scan_groups [OF ok])
  moreover have "scan GROUP b [] = []" for b
    by (subst scan.simps) (simp add: GROUP_def startsWith_def)
  ultimately have sc: "scan GROUP True key = map (\<lambda>l. Matched (''/('' @ l @ '')'')) labels"
    by simp
  have m: "match key GROUP \<noteq> None"
    unfolding match_Some_iff sc using assms(1) by (cases labels) auto
  have rp: "replace_pieces f (map (\<lambda>l. Matched (''/('' @ l @ '')'')) ls)
              = concat (map (\<lambda>l. f (''/('' @ l @ '')'')) ls)" for f ls
    by (simp add: replace_pieces_def comp_def)
  have 2: "typeWithGroups key False
           = concat (map (\<lambda>l. group_replacer False (''/('' @ l @ '')'')) labels)"
    by (simp only: typeWithGroups_def replaceAll_def sc rp)
  have "replaceAll key GROUP (\<lambda>m. []) = []"
    using rp [of "\<lambda>m. []" labels] by (simp add: replaceAll_def sc)
  then have "groupsRemoved key = ''/''"
    by (simp add: groupsRemoved_def)
  then have 3: "typeWithoutGroups key = ''/''"
    by (simp add: typeWithoutGroups_def not_startsWith_slash_urlParams)
  have 1: "contextKeyToType key False = ''`'' @ typeWithGroups key False @ ''` | `/`''"
    by (simp add: contextKeyToType_with_group [OF m] 3)
  from 1 2 3 show ?thesis by (intro conjI)
qed

text \<open>The theorem of C4 at the key \<^verbatim>\<open>/(a)/(b)\<close>.\<close>

theorem C4_groups_only_key_witness:
  "contextKeyToType ''/(a)/(b)'' False = ''`'' @ typeWithGroups ''/(a)/(b)'' False @ ''` | `/`''
   \<and> typeWithoutGroups ''/(a)/(b)'' = ''/''"
proof -
  have h: "\<forall>l \<in> set [''a'', ''b'']. CHR '')'' \<notin> set l \<and> CHR '','' \<notin> set l
                              \<and> (\<forall>c \<in> set l. \<not> line_terminator c)"
    by (simp add: line_terminator_def)
  have k: "''/(a)/(b)'' = concat (map (\<lambda>l. ''/('' @ l @ '')'') [''a'', ''b''])"
    by simp
  have n: "[''a'', ''b''] \<noteq> []" by simp
  show ?thesis
    using C4_groups_only_key [OF n h k] by simp
qed

text \<open>
  Claim C5 says that the groups-removed literal gets a leading \<^verbatim>\<open>/\<close> exactly when it
  begins with a previously substituted placeholder. The dynamic key \<^verbatim>\<open>/(g)[...x]\<close> is
  rewritten to \<^verbatim>\<open>/(g)${string}\<close>; its groups-removed literal begins with the placeholder
  \<^verbatim>\<open>${string}\<close> and gets no prefix.
\<close>

theorem C5_counterexample:
  "replaceAll (replaceAll ''/(g)[...x]'' CATCH_ALL (\<lambda>m. ''${string}''))
              SLUG (\<lambda>m. ''${Router.SingleRoutePart<T>}'') = ''/(g)${string}''
   \<and> groupsRemoved ''/(g)${string}'' = ''${string}''
   \<and> typeWithoutGroups ''/(g)${string}'' = ''${string}''
   \<and> contextKeyToType ''/(g)${string}'' False = ''`/(g)${string}` | `${string}`''"
  by code_simp

text \<open>
  Claim C5, amended: for a key with at least one group segment the result is the union of
  the group-expanded expression and the groups-removed literal; the literal is \<^verbatim>\<open>/\<close>
  when the removal of the groups leaves the empty string; and it gets a leading \<^verbatim>\<open>/\<close>
  exactly when it begins with \<^verbatim>\<open>urlParams\<close>, the suffix that the assembler appends to
  the static keys.
\<close>

theorem C5_union_with_groups_removed:
  assumes "match key GROUP \<noteq> None"
  shows "contextKeyToType key partialTypedGroups
           = ''`'' @ typeWithGroups key partialTypedGroups @ ''` | `'' @ typeWithoutGroups key @ ''`''
       \<and> groupsRemoved key
           = (if replaceAll key GROUP (\<lambda>m. []) = [] then ''/'' else replaceAll key GROUP (\<lambda>m. []))
       \<and> (typeWithoutGroups key = ''/'' @ groupsRemoved key) = startsWith (groupsRemoved key) urlParams
       \<and> (typeWithoutGroups key = groupsRemoved key) = (\<not> startsWith (groupsRemoved key) urlParams)"
proof -
  have 1: "contextKeyToType key partialTypedGroups
           = ''`'' @ typeWithGroups key partialTypedGroups @ ''` | `'' @ typeWithoutGroups key @ ''`''"
    by (rule contextKeyToType_with_group [OF assms])
  have 2: "groupsRemoved key
           = (if replaceAll key GROUP (\<lambda>m. []) = [] then ''/'' else replaceAll key GROUP (\<lambda>m. []))"
    by (simp add: groupsRemoved_def Let_def)
  have 3: "(typeWithoutGroups key = ''/'' @ groupsRemoved key) = startsWith (groupsRemoved key) urlParams"
    by (simp add: typeWithoutGroups_def)
  have 4: "(typeWithoutGroups key = groupsRemoved key) = (\<not> startsWith (groupsRemoved key) urlParams)"
    by (simp add: typeWithoutGroups_def)
  from 1 2 3 4 show ?thesis by (intro conjI)
qed

text \<open>
  The theorem of C5 at a static key made of groups, with its suffix, and at the key
  \<^verbatim>\<open>/(a)/home\<close>.
\<close>

theorem C5_union_with_groups_removed_witness:
  "contextKeyToType (''/(a)/(b)'' @ urlParams) False
     = ''`/(a)/(b)'' @ urlParams @ ''` | `/'' @ urlParams @ ''`''
   \<and> contextKeyToType ''/(a)/home'' False = ''`/(a)/home` | `/home`''"
proof -
  let ?K = "''/(a)/(b)'' @ urlParams"
  let ?H = "''/(a)/home''"
  have m: "match ?K GROUP \<noteq> None" "match ?H GROUP \<noteq> None"
    by code_simp+
  have g: "groupsRemoved ?K = urlParams" "groupsRemoved ?H = ''/home''"
    by code_simp+
  have t: "typeWithGroups ?K False = ''/(a)/(b)'' @ urlParams" "typeWithGroups ?H False = ''/(a)/home''"
    by code_simp+
  have u: "startsWith urlParams urlParams" "\<not> startsWith ''/home'' urlParams"
    by (simp_all add: startsWith_def urlParams_def)
  note K = C5_union_with_groups_removed [OF m(1), of False]
  note H = C5_union_with_groups_removed [OF m(2), of False]
  from K have "(typeWithoutGroups ?K = ''/'' @ groupsRemoved ?K) = startsWith (groupsRemoved ?K) urlParams"
    by (rule conjunct1 [OF conjunct2 [OF conjunct2]])
  then have a: "typeWithoutGroups ?K = ''/'' @ urlParams"
    unfolding g(1) using u(1) by simp
  from H have "(typeWithoutGroups ?H = groupsRemoved ?H) = (\<not> startsWith (groupsRemoved ?H) urlParams)"
    by (rule conjunct2 [OF conjunct2 [OF conjunct2]])
  then have b: "typeWithoutGroups ?H = ''/home''"
    unfolding g(2) using u(2) by simp
  have 1: "contextKeyToType ?K False = ''`/(a)/(b)'' @ urlParams @ ''` | `/'' @ urlParams @ ''`''"
    unfolding conjunct1 [OF K] a t(1) by simp
  have 2: "contextKeyToType ?H False = ''`/(a)/home` | `/home`''"
    unfolding conjunct1 [OF H] b t(2) by simp
  from 1 2 show ?thesis by (intro conjI)
qed

subsection \<open>The classifier\<close>

lemma set_Set_add: "set (Set_add xs x) = insert x (set xs)"
  by (auto simp: Set_add_def)

lemma keys_Map_set: "fst ` set (Map_set m k v) = insert k (fst ` set m)"
  by (induction m k v rule: Map_set.induct) auto

lemma set_Map_set_subset: "set (Map_set m k v) \<subseteq> insert (k, v) (set m)"
  by (induction m k v rule: Map_set.induct) auto

lemma fold_preserves:
  assumes "\<And>x g. x \<in> set xs \<Longrightarrow> P g \<Longrightarrow> P (f x g)" and "P g"
  shows "P (fold f xs g)"
  using assms by (induction xs arbitrary: g) auto

lemma groupRouteNodes_preserves:
  assumes "P g"
      and "\<And>g generated route contextKey.
            P g \<Longrightarrow> P (g\<lparr>static := Set_add (static g) (routeKey rse generated route contextKey)\<rparr>)"
      and "\<And>g generated route contextKey.
            P g \<Longrightarrow> P (g\<lparr>dynamic := Map_set (dynamic g) (routeKey rse generated route contextKey)
                                      (paramsNames (routeKey rse generated route contextKey))\<rparr>)"
  shows "P (groupRouteNodes rse node g)"
  using assms
proof (induction rse node g rule: groupRouteNodes.induct)
  case (1 rse g)
  then show ?case by simp
next
  case (2 rse type route contextKey generated is_dynamic children g)
  note add = "2.prems"(2) and set = "2.prems"(3)
  show ?case
  proof (cases "type \<noteq> ''route''")
    case True
    show ?thesis
    proof (cases "route = []")
      case r: True
      have "P (fold (\<lambda>child. groupRouteNodes rse (Some child)) children g)"
      proof (rule fold_preserves [where P = P])
        show "P g" by (rule "2.prems"(1))
      next
        fix x h assume "x \<in> set children" "P h"
        then show "P (groupRouteNodes rse (Some x) h)"
          by (rule "2.IH"(1) [OF True r _ _ add set])
      qed
      with True r show ?thesis by simp
    next
      case False
      with True "2.prems"(1) show ?thesis by simp
    qed
  next
    case False
    define k where "k = routeKey rse generated route contextKey"
    define g' where "g' = (if is_dynamic then g\<lparr>dynamic := Map_set (dynamic g) k (paramsNames k)\<rparr>
                           else g\<lparr>static := Set_add (static g) k\<rparr>)"
    have g': "P g'"
    proof (cases is_dynamic)
      case True
      have "P (g\<lparr>dynamic := Map_set (dynamic g) k (paramsNames k)\<rparr>)"
        unfolding k_def by (rule set [OF "2.prems"(1)])
      with True show ?thesis by (simp add: g'_def)
    next
      case False
      have "P (g\<lparr>static := Set_add (static g) k\<rparr>)"
        unfolding k_def by (rule add [OF "2.prems"(1)])
      with False show ?thesis by (simp add: g'_def)
    qed
    have e: "groupRouteNodes rse
               (Some (RouteNode type route contextKey generated is_dynamic children)) g
             = fold (\<lambda>child. groupRouteNodes rse (Some child)) children g'"
      using False by (simp add: k_def g'_def Let_def)
    have "P (fold (\<lambda>child. groupRouteNodes rse (Some child)) children g')"
    proof (rule fold_preserves [where P = P])
      show "P g'" by (rule g')
    next
      fix x h assume "x \<in> set children" "P h"
      then show "P (groupRouteNodes rse (Some x) h)"
        by (rule "2.IH"(2) [OF False k_def g'_def _ _ add set])
    qed
    then show ?thesis unfolding e .
  qed
qed

lemma dynamic_entries_paramsNames:
  assumes "\<forall>(k, ps) \<in> set (dynamic g). ps = paramsNames k"
  shows "\<forall>(k, ps) \<in> set (dynamic (groupRouteNodes rse node g)). ps = paramsNames k"
proof (rule groupRouteNodes_preserves
         [where P = "\<lambda>g. \<forall>(k, ps) \<in> set (dynamic g). ps = paramsNames k"])
  show "\<forall>(k, ps) \<in> set (dynamic g). ps = paramsNames k" by (rule assms)
next
  fix h :: groupedContextKeys and generated route contextKey
  assume "\<forall>(k, ps) \<in> set (dynamic h). ps = paramsNames k"
  then show "\<forall>(k, ps) \<in> set (dynamic (h\<lparr>static := Set_add (static h)
                 (routeKey rse generated route contextKey)\<rparr>)). ps = paramsNames k"
    by simp
next
  fix h :: groupedContextKeys and generated route contextKey
  assume "\<forall>(k, ps) \<in> set (dynamic h). ps = paramsNames k"
  then show "\<forall>(k, ps) \<in> set (dynamic (h\<lparr>dynamic := Map_set (dynamic h)
                 (routeKey rse generated route contextKey)
                 (paramsNames (routeKey rse generated route contextKey))\<rparr>)). ps = paramsNames k"
    using set_Map_set_subset [of "dynamic h" "routeKey rse generated route contextKey"
                                 "paramsNames (routeKey rse generated route contextKey)"]
    by auto
qed

lemma fold_union:
  assumes "\<And>x g. x \<in> set xs \<Longrightarrow> S (f x g) = S g \<union> A x"
  shows "S (fold f xs g) = S g \<union> (\<Union>x \<in> set xs. A x)"
  using assms by (induction xs arbitrary: g) auto

lemma static_keys_visited:
  "set (static (groupRouteNodes rse node g)) = set (static g) \<union> {k. (k, False) \<in> set (visited rse node)}"
proof (induction rse node g rule: groupRouteNodes.induct)
  case (1 rse g)
  then show ?case by simp
next
  case (2 rse type route contextKey generated is_dynamic children g)
  show ?case
  proof (cases "type \<noteq> ''route''")
    case True
    show ?thesis
    proof (cases "route = []")
      case r: True
      have "set (static (fold (\<lambda>child. groupRouteNodes rse (Some child)) children g))
            = set (static g) \<union> (\<Union>child \<in> set children. {k. (k, False) \<in> set (visited rse (Some child))})"
        by (rule fold_union [where S = "\<lambda>g. set (static g)"]) (rule "2.IH"(1) [OF True r])
      with True r show ?thesis by auto
    next
      case False
      with True show ?thesis by simp
    qed
  next
    case False
    define k where "k = routeKey rse generated route contextKey"
    define g' where "g' = (if is_dynamic then g\<lparr>dynamic := Map_set (dynamic g) k (paramsNames k)\<rparr>
                           else g\<lparr>static := Set_add (static g) k\<rparr>)"
    have "set (static (fold (\<lambda>child. groupRouteNodes rse (Some child)) children g'))
            = set (static g') \<union> (\<Union>child \<in> set children. {k. (k, False) \<in> set (visited rse (Some child))})"
      by (rule fold_union [where S = "\<lambda>g. set (static g)"]) (rule "2.IH"(2) [OF False k_def g'_def])
    moreover have "set (static g') = set (static g) \<union> (if is_dynamic then {} else {k})"
      by (simp add: g'_def set_Set_add)
    moreover have "{k'. (k', False) \<in> set (visited rse
                      (Some (RouteNode type route contextKey generated is_dynamic children)))}
          = (if is_dynamic then {} else {k})
            \<union> (\<Union>child \<in> set children. {k. (k, False) \<in> set (visited rse (Some child))})"
      using False by (auto simp: k_def)
    moreover have "groupRouteNodes rse
                     (Some (RouteNode type route contextKey generated is_dynamic children)) g
          = fold (\<lambda>child. groupRouteNodes rse (Some child)) children g'"
      using False by (simp add: k_def g'_def Let_def)
    ultimately show ?thesis by (simp only: Un_assoc)
  qed
qed

lemma dynamic_keys_visited:
  "fst ` set (dynamic (groupRouteNodes rse node g))
     = fst ` set (dynamic g) \<union> {k. (k, True) \<in> set (visited rse node)}"
proof (induction rse node g rule: groupRouteNodes.induct)
  case (1 rse g)
  then show ?case by simp
next
  case (2 rse type route contextKey generated is_dynamic children g)
  show ?case
  proof (cases "type \<noteq> ''route''")
    case True
    show ?thesis
    proof (cases "route = []")
      case r: True
      have "fst ` set (dynamic (fold (\<lambda>child. groupRouteNodes rse (Some child)) children g))
            = fst ` set (dynamic g) \<union> (\<Union>child \<in> set children. {k. (k, True) \<in> set (visited rse (Some child))})"
        by (rule fold_union [where S = "\<lambda>g. fst ` set (dynamic g)"]) (rule "2.IH"(1) [OF True r])
      with True r show ?thesis by auto
    next
      case False
      with True show ?thesis by simp
    qed
  next
    case False
    define k where "k = routeKey rse generated route contextKey"
    define g' where "g' = (if is_dynamic then g\<lparr>dynamic := Map_set (dynamic g) k (paramsNames k)\<rparr>
                           else g\<lparr>static := Set_add (static g) k\<rparr>)"
    have "fst ` set (dynamic (fold (\<lambda>child. groupRouteNodes rse (Some child)) children g'))
            = fst ` set (dynamic g') \<union> (\<Union>child \<in> set children. {k. (k, True) \<in> set (visited rse (Some child))})"
      by (rule fold_union [where S = "\<lambda>g. fst ` set (dynamic g)"]) (rule "2.IH"(2) [OF False k_def g'_def])
    moreover have "fst ` set (dynamic g') = fst ` set (dynamic g) \<union> (if is_dynamic then {k} else {})"
      by (simp add: g'_def keys_Map_set)
    moreover have "{k'. (k', True) \<in> set (visited rse
                      (Some (RouteNode type route contextKey generated is_dynamic children)))}
          = (if is_dynamic then {k} else {})
            \<union> (\<Union>child \<in> set children. {k. (k, True) \<in> set (visited rse (Some child))})"
      using False by (auto simp: k_def)
    moreover have "groupRouteNodes rse
                     (Some (RouteNode type route contextKey generated is_dynamic children)) g
          = fold (\<lambda>child. groupRouteNodes rse (Some child)) children g'"
      using False by (simp add: k_def g'_def Let_def)
    ultimately show ?thesis by (simp only: Un_assoc)
  qed
qed

lemma slice_1_m1: "slice s 1 (- 1) = butlast (tl s)"
  by (cases s) (auto simp: slice_def relative_index_def Let_def butlast_conv_take drop_Suc)

lemma bracketed_iff:
  "(startsWith s ''['' \<and> endsWith s '']'') = (s \<noteq> [] \<and> hd s = CHR ''['' \<and> last s = CHR '']'')"
proof (cases s rule: rev_cases)
  case Nil
  then show ?thesis by (simp add: startsWith_def endsWith_def)
next
  case (snoc ys y)
  then show ?thesis by (cases ys) (auto simp: startsWith_def endsWith_def)
qed

lemma paramsNames_bracketSegments: "paramsNames k = bracketSegments k"
  by (simp add: paramsNames_def bracketSegments_def slice_1_m1 bracketed_iff)

lemma param_key_flag:
  "(param_key p, startsWith p ''...'') = (if take 3 p = ''...'' then (drop 3 p, True) else (p, False))"
proof -
  have s: "startsWith p ''...'' = (take 3 p = ''...'')"
    by (simp add: startsWith_def numeral_3_eq_3)
  have "slice_from p 3 = drop 3 p" if "take 3 p = ''...''"
  proof -
    from that have "length (take 3 p) = 3" by simp
    then have "3 \<le> length p" by simp
    then show ?thesis by (simp add: slice_from_def relative_index_def)
  qed
  with s show ?thesis by (simp add: param_key_def)
qed

text \<open>
  Claim C9: after the classification of a tree, the parameter list of every entry of
  \<^verbatim>\<open>dynamic\<close> is the list of the bracket-delimited segments of its key, from left to
  right, each without its outer brackets. Every recorded route node that is flagged
  dynamic has such an entry; when its key has no bracket-delimited segment, the entry
  holds the empty list.
\<close>

theorem C9_params_are_bracket_segments:
  assumes "G = groupRouteNodes rse root empty_groupedContextKeys"
  shows "(\<forall>(k, ps) \<in> set (dynamic G). ps = bracketSegments k)
       \<and> (\<forall>(k, d) \<in> set (visited rse root). d \<longrightarrow> (k, bracketSegments k) \<in> set (dynamic G))
       \<and> (\<forall>(k, d) \<in> set (visited rse root). d \<and> bracketSegments k = [] \<longrightarrow> (k, []) \<in> set (dynamic G))"
proof -
  have inv: "\<forall>(k, ps) \<in> set (dynamic G). ps = paramsNames k"
    unfolding assms by (rule dynamic_entries_paramsNames) (simp add: empty_groupedContextKeys_def)
  have keys: "fst ` set (dynamic G) = {k. (k, True) \<in> set (visited rse root)}"
    unfolding assms by (simp add: dynamic_keys_visited empty_groupedContextKeys_def)
  have rec: "(k, bracketSegments k) \<in> set (dynamic G)" if "(k, True) \<in> set (visited rse root)" for k
  proof -
    from that keys have "k \<in> fst ` set (dynamic G)" by simp
    then obtain ps where "(k, ps) \<in> set (dynamic G)" by auto
    with inv show ?thesis by (auto simp: paramsNames_bracketSegments)
  qed
  from inv have 1: "\<forall>(k, ps) \<in> set (dynamic G). ps = bracketSegments k"
    by (simp add: paramsNames_bracketSegments)
  from rec have 2: "\<forall>(k, d) \<in> set (visited rse root). d \<longrightarrow> (k, bracketSegments k) \<in> set (dynamic G)"
    by auto
  have 3: "\<forall>(k, d) \<in> set (visited rse root). d \<and> bracketSegments k = [] \<longrightarrow> (k, []) \<in> set (dynamic G)"
  proof (clarify)
    fix k d assume "(k, d) \<in> set (visited rse root)" "d" "bracketSegments k = []"
    with rec [of k] show "(k, []) \<in> set (dynamic G)" by simp
  qed
  from 1 2 3 show ?thesis by (intro conjI)
qed


lemma example_grouped:
  "groupRouteNodes strip_tsx (Some example_tree) empty_groupedContextKeys =
     \<lparr>static = [''/about'', ''/''],
      dynamic = [(''/blog/[id]'', [''id'']), (''/blog/[...slug]'', [''...slug'']),
                 (''/post-[id]'', [])]\<rparr>"
  by code_simp

lemma example_visited:
  "visited strip_tsx (Some example_tree) =
     [(''/about'', False), (''/'', False), (''/blog/[id]'', True), (''/blog/[...slug]'', True),
      (''/post-[id]'', True)]"
  by code_simp

text \<open>
  The theorem of C9 on the example tree: the catch-all segment keeps its marker, and the
  key \<^verbatim>\<open>/post-[id]\<close> of a node flagged dynamic is recorded with no parameter.
\<close>

theorem C9_params_are_bracket_segments_witness:
  "(''/blog/[...slug]'', [''...slug''])
     \<in> set (dynamic (groupRouteNodes strip_tsx (Some example_tree) empty_groupedContextKeys))
   \<and> (''/post-[id]'', [])
     \<in> set (dynamic (groupRouteNodes strip_tsx (Some example_tree) empty_groupedContextKeys))
   \<and> bracketSegments ''/blog/[...slug]'' = [''...slug'']
   \<and> bracketSegments ''/post-[id]'' = []"
proof -
  have b: "bracketSegments ''/blog/[...slug]'' = [''...slug'']" "bracketSegments ''/post-[id]'' = []"
    by code_simp+
  show ?thesis
    using C9_params_are_bracket_segments [OF refl, of strip_tsx "Some example_tree"]
    by (simp add: example_visited b)
qed

text \<open>
  Claim C1 says that the extraction records each parameter name without its catch-all
  marker, together with a catch-all flag. The classifier records the text between the
  brackets as it is: for the key \<^verbatim>\<open>/blog/[...slug]\<close> the entry holds \<^verbatim>\<open>...slug\<close>, with
  the marker and without a flag.
\<close>

theorem C1_counterexample:
  "groupRouteNodes strip_tsx
       (Some (RouteNode ''route'' ''blog/[...slug]'' ''./blog/[...slug].tsx'' False True []))
       empty_groupedContextKeys
     = \<lparr>static = [], dynamic = [(''/blog/[...slug]'', [''...slug''])]\<rparr>
   \<and> paramsNames ''/blog/[...slug]'' \<noteq> [''slug'']"
  by code_simp

text \<open>
  Claim C1, amended: every recorded route node that is flagged dynamic gets an entry of
  \<^verbatim>\<open>dynamic\<close> under its key, and every entry holds the bracket-delimited segments of
  its key without their brackets, the catch-all marker still there. The assembler
  derives from each stored parameter the name without a leading \<^verbatim>\<open>...\<close> and the flag
  that says whether the marker was there, and the flag selects the array type of the
  rendered field. For \<^verbatim>\<open>/blog/[...slug]\<close> the stored parameter is \<^verbatim>\<open>...slug\<close>, with the
  derived name \<^verbatim>\<open>slug\<close>, catch-all; for \<^verbatim>\<open>/blog/[id]\<close> it is \<^verbatim>\<open>id\<close>, not catch-all.
\<close>

theorem C1_marker_recorded_name_and_flag_derived:
  assumes "G = groupRouteNodes rse root empty_groupedContextKeys"
      and "(k, True) \<in> set (visited rse root)"
  shows "(k, paramsNames k) \<in> set (dynamic G)
       \<and> (\<forall>(k', ps) \<in> set (dynamic G). ps = paramsNames k')
       \<and> paramsNames k = bracketSegments k
       \<and> map (\<lambda>param. (param_key param, startsWith param ''...'')) (paramsNames k)
           = extractParameters k
       \<and> inputParams (paramsNames k) =
           join (map (\<lambda>(name, isCatchAll). name @ '': ''
                        @ (if isCatchAll then ''(string | number)[]'' else ''string | number'') @ '';'')
                     (extractParameters k)) []
       \<and> outputParams (paramsNames k) =
           join (map (\<lambda>(name, isCatchAll). name @ '': ''
                        @ (if isCatchAll then ''string[]'' else ''string'') @ '';'')
                     (extractParameters k)) []
       \<and> paramsNames ''/blog/[...slug]'' = [''...slug'']
       \<and> map (\<lambda>param. (param_key param, startsWith param ''...'')) (paramsNames ''/blog/[...slug]'')
           = [(''slug'', True)]
       \<and> paramsNames ''/blog/[id]'' = [''id'']
       \<and> map (\<lambda>param. (param_key param, startsWith param ''...'')) (paramsNames ''/blog/[id]'')
           = [(''id'', False)]"
proof -
  have inv: "\<forall>(k', ps) \<in> set (dynamic G). ps = paramsNames k'"
    unfolding assms(1) by (rule dynamic_entries_paramsNames) (simp add: empty_groupedContextKeys_def)
  have "fst ` set (dynamic G) = {k. (k, True) \<in> set (visited rse root)}"
    unfolding assms(1) by (simp add: dynamic_keys_visited empty_groupedContextKeys_def)
  with assms(2) have "k \<in> fst ` set (dynamic G)" by simp
  then obtain ps where "(k, ps) \<in> set (dynamic G)" by auto
  with inv have 1: "(k, paramsNames k) \<in> set (dynamic G)" by auto
  have 3: "paramsNames k = bracketSegments k"
    by (rule paramsNames_bracketSegments)
  have 4: "map (\<lambda>param. (param_key param, startsWith param ''...'')) (paramsNames k)
           = extractParameters k"
    by (simp add: 3 extractParameters_def param_key_flag)
  have i: "param_key p @ '': '' @ param_input_value p @ '';'' =
        (case (if take 3 p = ''...'' then (drop 3 p, True) else (p, False)) of
           (name, isCatchAll) \<Rightarrow> name @ '': ''
              @ (if isCatchAll then ''(string | number)[]'' else ''string | number'') @ '';'')" for p
    using param_key_flag [of p] by (auto simp: param_input_value_def split: if_splits)
  have o: "param_key p @ '': '' @ param_output_value p @ '';'' =
        (case (if take 3 p = ''...'' then (drop 3 p, True) else (p, False)) of
           (name, isCatchAll) \<Rightarrow> name @ '': ''
              @ (if isCatchAll then ''string[]'' else ''string'') @ '';'')" for p
    using param_key_flag [of p] by (auto simp: param_output_value_def split: if_splits)
  have 5: "inputParams (paramsNames k) =
           join (map (\<lambda>(name, isCatchAll). name @ '': ''
                        @ (if isCatchAll then ''(string | number)[]'' else ''string | number'') @ '';'')
                     (extractParameters k)) []"
    unfolding inputParams_def extractParameters_def 3 map_map comp_def i ..
  have 6: "outputParams (paramsNames k) =
           join (map (\<lambda>(name, isCatchAll). name @ '': ''
                        @ (if isCatchAll then ''string[]'' else ''string'') @ '';'')
                     (extractParameters k)) []"
    unfolding outputParams_def extractParameters_def 3 map_map comp_def o ..
  have 7: "paramsNames ''/blog/[...slug]'' = [''...slug'']"
    by code_simp
  have 8: "map (\<lambda>param. (param_key param, startsWith param ''...'')) (paramsNames ''/blog/[...slug]'')
           = [(''slug'', True)]"
    by code_simp
  have 9: "paramsNames ''/blog/[id]'' = [''id'']"
    by code_simp
  have 10: "map (\<lambda>param. (param_key param, startsWith param ''...'')) (paramsNames ''/blog/[id]'')
           = [(''id'', False)]"
    by code_simp
  from 1 inv 3 4 5 6 7 8 9 10 show ?thesis by (intro conjI)
qed

text \<open>The theorem of C1 at the two keys in the example tree, with the rendered fields.\<close>

theorem C1_marker_recorded_name_and_flag_derived_witness:
  "(''/blog/[...slug]'', [''...slug''])
     \<in> set (dynamic (groupRouteNodes strip_tsx (Some example_tree) empty_groupedContextKeys))
   \<and> inputParams [''...slug''] = ''slug: (string | number)[];''
   \<and> outputParams [''...slug''] = ''slug: string[];''
   \<and> (''/blog/[id]'', [''id''])
     \<in> set (dynamic (groupRouteNodes strip_tsx (Some example_tree) empty_groupedContextKeys))
   \<and> inputParams [''id''] = ''id: string | number;''
   \<and> outputParams [''id''] = ''id: string;''"
proof -
  have e: "extractParameters ''/blog/[...slug]'' = [(''slug'', True)]"
          "extractParameters ''/blog/[id]'' = [(''id'', False)]"
    by code_simp+
  have p: "paramsNames ''/blog/[...slug]'' = [''...slug'']" "paramsNames ''/blog/[id]'' = [''id'']"
    by code_simp+
  have v: "(''/blog/[...slug]'', True) \<in> set (visited strip_tsx (Some example_tree))"
          "(''/blog/[id]'', True) \<in> set (visited strip_tsx (Some example_tree))"
    by (simp_all add: example_visited)
  note s = C1_marker_recorded_name_and_flag_derived [OF refl v(1)]
  note i = C1_marker_recorded_name_and_flag_derived [OF refl v(2)]
  have 1: "(''/blog/[...slug]'', [''...slug''])
     \<in> set (dynamic (groupRouteNodes strip_tsx (Some example_tree) empty_groupedContextKeys))"
    using s [THEN conjunct1] by (simp only: p)
  have 2: "inputParams [''...slug''] = ''slug: (string | number)[];''"
    using s [THEN conjunct2, THEN conjunct2, THEN conjunct2, THEN conjunct2, THEN conjunct1]
    by (simp add: p e)
  have 3: "outputParams [''...slug''] = ''slug: string[];''"
    using s [THEN conjunct2, THEN conjunct2, THEN conjunct2, THEN conjunct2, THEN conjunct2, THEN conjunct1]
    by (simp add: p e)
  have 4: "(''/blog/[id]'', [''id''])
     \<in> set (dynamic (groupRouteNodes strip_tsx (Some example_tree) empty_groupedContextKeys))"
    using i [THEN conjunct1] by (simp only: p)
  have 5: "inputParams [''id''] = ''id: string | number;''"
    using i [THEN conjunct2, THEN conjunct2, THEN conjunct2, THEN conjunct2, THEN conjunct1]
    by (simp add: p e)
  have 6: "outputParams [''id''] = ''id: string;''"
    using i [THEN conjunct2, THEN conjunct2, THEN conjunct2, THEN conjunct2, THEN conjunct2, THEN conjunct1]
    by (simp add: p e)
  from 1 2 3 4 5 6 show ?thesis by (intro conjI)
qed

lemma routeKey_startsWith_slash: "startsWith (routeKey rse generated route contextKey) ''/''"
proof -
  have "startsWith (backslashes_to_slashes k) ''/''" if "startsWith k ''/''" for k
    using that by (cases k) (auto simp: startsWith_def backslashes_to_slashes_def)
  then show ?thesis
    by (simp add: routeKey_def Let_def) (simp add: startsWith_def)
qed

lemma keys_startWith_slash:
  assumes "\<forall>k \<in> set (static g) \<union> fst ` set (dynamic g). startsWith k ''/''"
  shows "\<forall>k \<in> set (static (groupRouteNodes rse node g))
              \<union> fst ` set (dynamic (groupRouteNodes rse node g)). startsWith k ''/''"
proof (rule groupRouteNodes_preserves
         [where P = "\<lambda>g. \<forall>k \<in> set (static g) \<union> fst ` set (dynamic g). startsWith k ''/''"])
  show "\<forall>k \<in> set (static g) \<union> fst ` set (dynamic g). startsWith k ''/''" by (rule assms)
next
  fix h :: groupedContextKeys and generated route contextKey
  assume "\<forall>k \<in> set (static h) \<union> fst ` set (dynamic h). startsWith k ''/''"
  then show "\<forall>k \<in> set (static (h\<lparr>static := Set_add (static h) (routeKey rse generated route contextKey)\<rparr>))
                  \<union> fst ` set (dynamic (h\<lparr>static := Set_add (static h) (routeKey rse generated route contextKey)\<rparr>)).
               startsWith k ''/''"
    by (simp add: set_Set_add routeKey_startsWith_slash)
next
  fix h :: groupedContextKeys and generated route contextKey
  assume "\<forall>k \<in> set (static h) \<union> fst ` set (dynamic h). startsWith k ''/''"
  then show "\<forall>k \<in> set (static (h\<lparr>dynamic := Map_set (dynamic h) (routeKey rse generated route contextKey)
                                   (paramsNames (routeKey rse generated route contextKey))\<rparr>))
                  \<union> fst ` set (dynamic (h\<lparr>dynamic := Map_set (dynamic h) (routeKey rse generated route contextKey)
                                   (paramsNames (routeKey rse generated route contextKey))\<rparr>)).
               startsWith k ''/''"
    by (simp add: keys_Map_set routeKey_startsWith_slash)
qed

lemma routeKey_double_slash:
  "startsWith (routeKey rse generated route contextKey) ''//'' =
     (let k = (if generated then route
               else remove_leading_dot (remove_trailing_index (rse contextKey)))
      in startsWith k ''//'' \<or> startsWith k (''/'' @ [CHR 0x5C]) \<or> startsWith k [CHR 0x5C])"
proof -
  have "startsWith (backslashes_to_slashes
            (if \<not> startsWith (if k = [] then ''/'' else k) ''/''
             then ''/'' @ (if k = [] then ''/'' else k) else (if k = [] then ''/'' else k))) ''//''
        = (startsWith k ''//'' \<or> startsWith k (''/'' @ [CHR 0x5C]) \<or> startsWith k [CHR 0x5C])" for k
  proof (cases k)
    case Nil
    then show ?thesis by (simp add: startsWith_def backslashes_to_slashes_def)
  next
    case (Cons c cs)
    then show ?thesis
      by (cases cs) (auto simp: startsWith_def backslashes_to_slashes_def)
  qed
  then show ?thesis by (simp add: routeKey_def Let_def)
qed

text \<open>
  Claim C8 says that no recorded key starts with \<^verbatim>\<open>//\<close>. The backslashes become
  slashes after the leading slash is added: the context key \<^verbatim>\<open>.\a.tsx\<close> is
  recorded as \<^verbatim>\<open>//a\<close>.
\<close>

theorem C8_counterexample:
  "groupRouteNodes strip_tsx (Some backslash_node) empty_groupedContextKeys
     = \<lparr>static = [''//a''], dynamic = []\<rparr>"
  by code_simp

text \<open>
  Claim C8, amended: every key recorded in \<^verbatim>\<open>static\<close> or \<^verbatim>\<open>dynamic\<close> starts with
  \<^verbatim>\<open>/\<close>; the context key \<^verbatim>\<open>./index.tsx\<close>, stripped to \<^verbatim>\<open>./index\<close>, has the key
  \<^verbatim>\<open>/\<close>; and a key starts with \<^verbatim>\<open>//\<close> exactly when the key before the coercion
  of the empty string starts with \<^verbatim>\<open>//\<close>, with a slash and a backslash, or with a
  backslash.
\<close>

theorem C8_keys_start_with_slash:
  assumes "G = groupRouteNodes rse root empty_groupedContextKeys"
  shows "(\<forall>k \<in> set (static G) \<union> fst ` set (dynamic G). startsWith k ''/'')
       \<and> (rse ''./index.tsx'' = ''./index'' \<longrightarrow> routeKey rse False r ''./index.tsx'' = ''/'')
       \<and> (startsWith (routeKey rse generated route contextKey) ''//'' =
            (let k = (if generated then route
                      else remove_leading_dot (remove_trailing_index (rse contextKey)))
             in startsWith k ''//'' \<or> startsWith k (''/'' @ [CHR 0x5C]) \<or> startsWith k [CHR 0x5C]))"
proof -
  have 1: "\<forall>k \<in> set (static G) \<union> fst ` set (dynamic G). startsWith k ''/''"
    unfolding assms by (rule keys_startWith_slash) (simp add: empty_groupedContextKeys_def)
  have 2: "rse ''./index.tsx'' = ''./index'' \<longrightarrow> routeKey rse False r ''./index.tsx'' = ''/''"
    by (simp add: routeKey_def remove_trailing_index_def remove_leading_dot_def endsWith_def
                  startsWith_def backslashes_to_slashes_def)
  from 1 2 routeKey_double_slash show ?thesis by (intro conjI)
qed

text \<open>The theorem of C8 on the example tree, with the root file and the file \<^verbatim>\<open>./about.tsx\<close>.\<close>

theorem C8_keys_start_with_slash_witness:
  "startsWith ''/about'' ''/'' \<and> startsWith ''/blog/[id]'' ''/''
   \<and> routeKey strip_tsx False ''index'' ''./index.tsx'' = ''/''
   \<and> \<not> startsWith (routeKey strip_tsx False ''about'' ''./about.tsx'') ''//''"
proof -
  have s: "strip_tsx ''./index.tsx'' = ''./index''" by code_simp
  have k: "remove_leading_dot (remove_trailing_index (strip_tsx ''./about.tsx'')) = ''/about''"
    by code_simp
  show ?thesis
    using C8_keys_start_with_slash [where rse = strip_tsx and root = "Some example_tree" and r = "''index''"
               and route = "''about''" and generated = False and contextKey = "''./about.tsx''", OF refl]
    by (simp add: example_grouped s k) (simp add: startsWith_def)
qed

text \<open>
  Claim C7 says that no key is in both containers after the classification of any tree.
  The container is chosen by the flag of each node alone: two route nodes with one key
  and different flags put the key \<^verbatim>\<open>/[id]\<close> in both.
\<close>

theorem C7_counterexample:
  "groupRouteNodes strip_tsx (Some clash_tree) empty_groupedContextKeys
     = \<lparr>static = [''/[id]''], dynamic = [(''/[id]'', [''id''])]\<rparr>"
  by code_simp

text \<open>
  Claim C7, amended: when no two recorded route nodes with the same key disagree on the
  \<^verbatim>\<open>dynamic\<close> flag, no key is in both containers, and the key of every recorded route
  node is in \<^verbatim>\<open>dynamic\<close> and not in \<^verbatim>\<open>static\<close> when the node is flagged dynamic, and
  in \<^verbatim>\<open>static\<close> and not in \<^verbatim>\<open>dynamic\<close> otherwise.
\<close>

theorem C7_disjoint_when_flags_agree:
  assumes "G = groupRouteNodes rse root empty_groupedContextKeys"
      and "\<forall>(k, d) \<in> set (visited rse root). (k, \<not> d) \<notin> set (visited rse root)"
  shows "set (static G) \<inter> fst ` set (dynamic G) = {}
       \<and> (\<forall>(k, d) \<in> set (visited rse root).
             (k \<in> set (static G)) = (\<not> d) \<and> (k \<in> fst ` set (dynamic G)) = d)"
proof -
  have s: "set (static G) = {k. (k, False) \<in> set (visited rse root)}"
    unfolding assms(1) by (simp add: static_keys_visited empty_groupedContextKeys_def)
  have d: "fst ` set (dynamic G) = {k. (k, True) \<in> set (visited rse root)}"
    unfolding assms(1) by (simp add: dynamic_keys_visited empty_groupedContextKeys_def)
  have 1: "set (static G) \<inter> fst ` set (dynamic G) = {}"
    unfolding s d using assms(2) by fastforce
  have 2: "\<forall>(k, d) \<in> set (visited rse root).
             (k \<in> set (static G)) = (\<not> d) \<and> (k \<in> fst ` set (dynamic G)) = d"
  proof (clarify)
    fix k d assume m: "(k, d) \<in> set (visited rse root)"
    with assms(2) have n: "(k, \<not> d) \<notin> set (visited rse root)" by auto
    from m n show "(k \<in> set (static G)) = (\<not> d) \<and> (k \<in> fst ` set (dynamic G)) = d"
      unfolding s d by (cases d) auto
  qed
  from 1 2 show ?thesis by (intro conjI)
qed

text \<open>The theorem of C7 on the example tree.\<close>

theorem C7_disjoint_when_flags_agree_witness:
  "set (static (groupRouteNodes strip_tsx (Some example_tree) empty_groupedContextKeys))
     \<inter> fst ` set (dynamic (groupRouteNodes strip_tsx (Some example_tree) empty_groupedContextKeys)) = {}
   \<and> ''/about'' \<in> set (static (groupRouteNodes strip_tsx (Some example_tree) empty_groupedContextKeys))
   \<and> ''/blog/[id]'' \<in> fst ` set (dynamic (groupRouteNodes strip_tsx (Some example_tree) empty_groupedContextKeys))"
proof -
  have h: "\<forall>(k, d) \<in> set (visited strip_tsx (Some example_tree)).
             (k, \<not> d) \<notin> set (visited strip_tsx (Some example_tree))"
    by (simp add: example_visited)
  show ?thesis
    using C7_disjoint_when_flags_agree [OF refl h]
    by (simp add: example_visited)
qed

subsection \<open>The assembler\<close>


lemma fold_push_static:
  "fold (push_static p) ts arrays =
     arrays\<lparr>staticRoutesStrings := staticRoutesStrings arrays
                @ map (\<lambda>type. contextKeyToType (type @ urlParams) p) ts,
            staticRouteInputObjects := staticRouteInputObjects arrays
                @ map (\<lambda>type. ''{ pathname: '' @ contextKeyToType type p
                   @ ''; params?: Router.UnknownInputParams; }'') ts,
            staticRouteOutputObjects := staticRouteOutputObjects arrays
                @ map (\<lambda>type. ''{ pathname: '' @ contextKeyToType type p
                   @ ''; params?: Router.UnknownOutputParams; }'') ts\<rparr>"
  by (induction ts arbitrary: arrays) (simp_all add: push_static_def)

lemma fold_push_dynamic:
  "fold (push_dynamic p) es arrays =
     arrays\<lparr>dynamicRouteStrings := dynamicRouteStrings arrays
                @ map (\<lambda>entry. contextKeyToType
                        (replaceAll (replaceAll (fst entry) CATCH_ALL (\<lambda>m. ''${string}''))
                                    SLUG (\<lambda>m. ''${Router.SingleRoutePart<T>}'')) p) es,
            dynamicRouteInputObjects := dynamicRouteInputObjects arrays
                @ map (\<lambda>entry. ''{ pathname: '' @ contextKeyToType (fst entry) p
                      @ '', params: Router.UnknownInputParams & { '' @ inputParams (snd entry) @ '' } }'') es,
            dynamicRouteOutputObjects := dynamicRouteOutputObjects arrays
                @ map (\<lambda>entry. ''{ pathname: '' @ contextKeyToType (fst entry) p
                      @ '', params: Router.UnknownOutputParams & { '' @ outputParams (snd entry) @ '' } }'') es\<rparr>"
  by (induction es arbitrary: arrays) (simp_all add: push_dynamic_def Let_def)

text \<open>
  Claim C10: the suffix \<^verbatim>\<open>urlParams\<close> is appended to a static key only for its entry
  in \<^verbatim>\<open>staticRoutesStrings\<close>. The pathname of each input and output object of a
  static key is synthesized from the key alone, the string pattern of a dynamic key from
  the key with its parameter segments rewritten, and the pathname of each input and
  output object of a dynamic key from the key alone.
\<close>

theorem C10_urlParams_only_on_static_strings:
  "staticRoutesStrings (fill_routeArrays g p) =
     staticRoutesStrings initial_routeArrays
       @ map (\<lambda>type. contextKeyToType (type @ urlParams) p) (static g)
   \<and> staticRouteInputObjects (fill_routeArrays g p) =
     staticRouteInputObjects initial_routeArrays
       @ map (\<lambda>type. ''{ pathname: '' @ contextKeyToType type p
                @ ''; params?: Router.UnknownInputParams; }'') (static g)
   \<and> staticRouteOutputObjects (fill_routeArrays g p) =
     staticRouteOutputObjects initial_routeArrays
       @ map (\<lambda>type. ''{ pathname: '' @ contextKeyToType type p
                @ ''; params?: Router.UnknownOutputParams; }'') (static g)
   \<and> dynamicRouteStrings (fill_routeArrays g p) =
     map (\<lambda>entry. contextKeyToType
            (replaceAll (replaceAll (fst entry) CATCH_ALL (\<lambda>m. ''${string}''))
                        SLUG (\<lambda>m. ''${Router.SingleRoutePart<T>}'')) p) (dynamic g)
   \<and> dynamicRouteInputObjects (fill_routeArrays g p) =
     map (\<lambda>entry. ''{ pathname: '' @ contextKeyToType (fst entry) p
            @ '', params: Router.UnknownInputParams & { '' @ inputParams (snd entry) @ '' } }'')
         (dynamic g)
   \<and> dynamicRouteOutputObjects (fill_routeArrays g p) =
     map (\<lambda>entry. ''{ pathname: '' @ contextKeyToType (fst entry) p
            @ '', params: Router.UnknownOutputParams & { '' @ outputParams (snd entry) @ '' } }'')
         (dynamic g)"
  by (simp add: fill_routeArrays_def fold_push_static fold_push_dynamic initial_routeArrays_def)

text \<open>
  Claim C6: when \<^verbatim>\<open>getRoutes\<close> throws or returns null, the error does not leave the
  generator, the classification is the empty collection, the six arrays hold the two
  generic path kinds (relative and external) only, and the declaration file is the text
  below, with and without the comments of the test mode: each of its three unions
  holds the generic path kinds and nothing else.
\<close>

theorem C6_document_when_no_tree:
  assumes "getRoutes ctx = Inl e \<or> getRoutes ctx = Inr None"
  shows "groupRouteNodes removeSupportedExtensions
           (case getRoutes ctx of Inl e \<Rightarrow> None | Inr node \<Rightarrow> node) empty_groupedContextKeys
         = \<lparr>static = [], dynamic = []\<rparr>
       \<and> fill_routeArrays \<lparr>static = [], dynamic = []\<rparr> partialTypedGroups
         = \<lparr>staticRoutesStrings = [''Router.RelativePathString'', ''Router.ExternalPathString''],
            staticRouteInputObjects =
              [''{ pathname: Router.RelativePathString, params?: Router.UnknownInputParams }'',
               ''{ pathname: Router.ExternalPathString, params?: Router.UnknownInputParams }''],
            staticRouteOutputObjects =
              [''{ pathname: Router.RelativePathString, params?: Router.UnknownOutputParams }'',
               ''{ pathname: Router.ExternalPathString, params?: Router.UnknownOutputParams }''],
            dynamicRouteStrings = [],
            dynamicRouteInputObjects = [],
            dynamicRouteOutputObjects = []\<rparr>
       \<and> getTypedRoutesDeclarationFile getRoutes removeSupportedExtensions ctx
           partialTypedGroups False
         = ''/* eslint-disable */'' @ [CHR 0x0A]
           @ ''import * as Router from 'expo-router';'' @ [CHR 0x0A]
           @ [CHR 0x0A]
           @ ''export * from 'expo-router';'' @ [CHR 0x0A]
           @ [CHR 0x0A]
           @ ''declare module 'expo-router' {'' @ [CHR 0x0A]
           @ ''  export namespace ExpoRouter {'' @ [CHR 0x0A]
           @ ''    export interface __routes<T extends string | object = string> {'' @ [CHR 0x0A]
           @ ''      hrefInputParams: { pathname: Router.RelativePathString, params?: Router.UnknownInputParams } | { pathname: Router.ExternalPathString, params?: Router.UnknownInputParams };'' @ [CHR 0x0A]
           @ ''      hrefOutputParams: { pathname: Router.RelativePathString, params?: Router.UnknownOutputParams } | { pathname: Router.ExternalPathString, params?: Router.UnknownOutputParams };'' @ [CHR 0x0A]
           @ ''      href: Router.RelativePathString | Router.ExternalPathString | { pathname: Router.RelativePathString, params?: Router.UnknownInputParams } | { pathname: Router.ExternalPathString, params?: Router.UnknownInputParams };'' @ [CHR 0x0A]
           @ ''    }'' @ [CHR 0x0A]
           @ ''  }'' @ [CHR 0x0A]
           @ ''}'' @ [CHR 0x0A]
       \<and> getTypedRoutesDeclarationFile getRoutes removeSupportedExtensions ctx
           partialTypedGroups True
         = ''/* eslint-disable */'' @ [CHR 0x0A]
           @ ''import * as Router from 'expo-router';'' @ [CHR 0x0A]
           @ [CHR 0x0A]
           @ ''export * from 'expo-router';'' @ [CHR 0x0A]
           @ [CHR 0x0A]
           @ ''declare module 'expo-router' {'' @ [CHR 0x0A]
           @ ''  export namespace ExpoRouter {'' @ [CHR 0x0A]
           @ ''    export interface __routes<T extends string | object = string> {'' @ [CHR 0x0A]
           @ ''      // @ts-ignore-error -- During tests we need to ignore the '' @ [CHR 0x22]
             @ ''duplicate'' @ [CHR 0x22]
             @ '' declaration error, as multiple fixture declare types '' @ [CHR 0x0A]
           @ ''      hrefInputParams: { pathname: Router.RelativePathString, params?: Router.UnknownInputParams } | { pathname: Router.ExternalPathString, params?: Router.UnknownInputParams };'' @ [CHR 0x0A]
           @ ''      // @ts-ignore-error -- During tests we need to ignore the '' @ [CHR 0x22]
             @ ''duplicate'' @ [CHR 0x22]
             @ '' declaration error, as multiple fixture declare types '' @ [CHR 0x0A]
           @ ''      hrefOutputParams: { pathname: Router.RelativePathString, params?: Router.UnknownOutputParams } | { pathname: Router.ExternalPathString, params?: Router.UnknownOutputParams };'' @ [CHR 0x0A]
           @ ''      // @ts-ignore-error -- During tests we need to ignore the '' @ [CHR 0x22]
             @ ''duplicate'' @ [CHR 0x22]
             @ '' declaration error, as multiple fixture declare types '' @ [CHR 0x0A]
           @ ''      href: Router.RelativePathString | Router.ExternalPathString | { pathname: Router.RelativePathString, params?: Router.UnknownInputParams } | { pathname: Router.ExternalPathString, params?: Router.UnknownInputParams };'' @ [CHR 0x0A]
           @ ''    }'' @ [CHR 0x0A]
           @ ''  }'' @ [CHR 0x0A]
           @ ''}'' @ [CHR 0x0A]"
proof -
  have n: "(case getRoutes ctx of Inl e \<Rightarrow> None | Inr node \<Rightarrow> node) = None"
    using assms by auto
  have g: "groupRouteNodes removeSupportedExtensions None empty_groupedContextKeys
             = \<lparr>static = [], dynamic = []\<rparr>"
    by (simp add: empty_groupedContextKeys_def)
  have f: "fill_routeArrays \<lparr>static = [], dynamic = []\<rparr> partialTypedGroups
         = \<lparr>staticRoutesStrings = [''Router.RelativePathString'', ''Router.ExternalPathString''],
            staticRouteInputObjects =
              [''{ pathname: Router.RelativePathString, params?: Router.UnknownInputParams }'',
               ''{ pathname: Router.ExternalPathString, params?: Router.UnknownInputParams }''],
            staticRouteOutputObjects =
              [''{ pathname: Router.RelativePathString, params?: Router.UnknownOutputParams }'',
               ''{ pathname: Router.ExternalPathString, params?: Router.UnknownOutputParams }''],
            dynamicRouteStrings = [],
            dynamicRouteInputObjects = [],
            dynamicRouteOutputObjects = []\<rparr>"
    by (simp add: fill_routeArrays_def initial_routeArrays_def)
  have 1: "groupRouteNodes removeSupportedExtensions
           (case getRoutes ctx of Inl e \<Rightarrow> None | Inr node \<Rightarrow> node) empty_groupedContextKeys
         = \<lparr>static = [], dynamic = []\<rparr>"
    unfolding n by (rule g)
  have d: "getTypedRoutesDeclarationFile getRoutes removeSupportedExtensions ctx partialTypedGroups t
           = declaration_file t
               (join [''{ pathname: Router.RelativePathString, params?: Router.UnknownInputParams }'',
                      ''{ pathname: Router.ExternalPathString, params?: Router.UnknownInputParams }''] '' | '')
               (join [''{ pathname: Router.RelativePathString, params?: Router.UnknownOutputParams }'',
                      ''{ pathname: Router.ExternalPathString, params?: Router.UnknownOutputParams }''] '' | '')
               (join [''Router.RelativePathString'', ''Router.ExternalPathString'',
                      ''{ pathname: Router.RelativePathString, params?: Router.UnknownInputParams }'',
                      ''{ pathname: Router.ExternalPathString, params?: Router.UnknownInputParams }''] '' | '')" for t
    unfolding getTypedRoutesDeclarationFile_def n g f Let_def by simp
  have 3: "getTypedRoutesDeclarationFile getRoutes removeSupportedExtensions ctx
           partialTypedGroups False
         = ''/* eslint-disable */'' @ [CHR 0x0A]
           @ ''import * as Router from 'expo-router';'' @ [CHR 0x0A]
           @ [CHR 0x0A]
           @ ''export * from 'expo-router';'' @ [CHR 0x0A]
           @ [CHR 0x0A]
           @ ''declare module 'expo-router' {'' @ [CHR 0x0A]
           @ ''  export namespace ExpoRouter {'' @ [CHR 0x0A]
           @ ''    export interface __routes<T extends string | object = string> {'' @ [CHR 0x0A]
           @ ''      hrefInputParams: { pathname: Router.RelativePathString, params?: Router.UnknownInputParams } | { pathname: Router.ExternalPathString, params?: Router.UnknownInputParams };'' @ [CHR 0x0A]
           @ ''      hrefOutputParams: { pathname: Router.RelativePathString, params?: Router.UnknownOutputParams } | { pathname: Router.ExternalPathString, params?: Router.UnknownOutputParams };'' @ [CHR 0x0A]
           @ ''      href: Router.RelativePathString | Router.ExternalPathString | { pathname: Router.RelativePathString, params?: Router.UnknownInputParams } | { pathname: Router.ExternalPathString, params?: Router.UnknownInputParams };'' @ [CHR 0x0A]
           @ ''    }'' @ [CHR 0x0A]
           @ ''  }'' @ [CHR 0x0A]
           @ ''}'' @ [CHR 0x0A]"
    unfolding d by (simp add: declaration_file_def tsExpectError_def)
  have 4: "getTypedRoutesDeclarationFile getRoutes removeSupportedExtensions ctx
           partialTypedGroups True
         = ''/* eslint-disable */'' @ [CHR 0x0A]
           @ ''import * as Router from 'expo-router';'' @ [CHR 0x0A]
           @ [CHR 0x0A]
           @ ''export * from 'expo-router';'' @ [CHR 0x0A]
           @ [CHR 0x0A]
           @ ''declare module 'expo-router' {'' @ [CHR 0x0A]
           @ ''  export namespace ExpoRouter {'' @ [CHR 0x0A]
           @ ''    export interface __routes<T extends string | object = string> {'' @ [CHR 0x0A]
           @ ''      // @ts-ignore-error -- During tests we need to ignore the '' @ [CHR 0x22]
             @ ''duplicate'' @ [CHR 0x22]
             @ '' declaration error, as multiple fixture declare types '' @ [CHR 0x0A]
           @ ''      hrefInputParams: { pathname: Router.RelativePathString, params?: Router.UnknownInputParams } | { pathname: Router.ExternalPathString, params?: Router.UnknownInputParams };'' @ [CHR 0x0A]
           @ ''      // @ts-ignore-error -- During tests we need to ignore the '' @ [CHR 0x22]
             @ ''duplicate'' @ [CHR 0x22]
             @ '' declaration error, as multiple fixture declare types '' @ [CHR 0x0A]
           @ ''      hrefOutputParams: { pathname: Router.RelativePathString, params?: Router.UnknownOutputParams } | { pathname: Router.ExternalPathString, params?: Router.UnknownOutputParams };'' @ [CHR 0x0A]
           @ ''      // @ts-ignore-error -- During tests we need to ignore the '' @ [CHR 0x22]
             @ ''duplicate'' @ [CHR 0x22]
             @ '' declaration error, as multiple fixture declare types '' @ [CHR 0x0A]
           @ ''      href: Router.RelativePathString | Router.ExternalPathString | { pathname: Router.RelativePathString, params?: Router.UnknownInputParams } | { pathname: Router.ExternalPathString, params?: Router.UnknownInputParams };'' @ [CHR 0x0A]
           @ ''    }'' @ [CHR 0x0A]
           @ ''  }'' @ [CHR 0x0A]
           @ ''}'' @ [CHR 0x0A]"
    unfolding d by (simp add: declaration_file_def tsExpectError_def)
  from 1 f 3 4 show ?thesis by (intro conjI)
qed

text \<open>
  The theorem of C6 at a tree builder that throws and at one that returns null: both
  give the same text.
\<close>

theorem C6_document_when_no_tree_witness:
  "getTypedRoutesDeclarationFile (\<lambda>ctx::unit. Inl ''ENOENT'' :: string + RouteNode option)
       (\<lambda>s. s) () False False
     = ''/* eslint-disable */'' @ [CHR 0x0A]
       @ ''import * as Router from 'expo-router';'' @ [CHR 0x0A]
       @ [CHR 0x0A]
       @ ''export * from 'expo-router';'' @ [CHR 0x0A]
       @ [CHR 0x0A]
       @ ''declare module 'expo-router' {'' @ [CHR 0x0A]
       @ ''  export namespace ExpoRouter {'' @ [CHR 0x0A]
       @ ''    export interface __routes<T extends string | object = string> {'' @ [CHR 0x0A]
       @ ''      hrefInputParams: { pathname: Router.RelativePathString, params?: Router.UnknownInputParams } | { pathname: Router.ExternalPathString, params?: Router.UnknownInputParams };'' @ [CHR 0x0A]
       @ ''      hrefOutputParams: { pathname: Router.RelativePathString, params?: Router.UnknownOutputParams } | { pathname: Router.ExternalPathString, params?: Router.UnknownOutputParams };'' @ [CHR 0x0A]
       @ ''      href: Router.RelativePathString | Router.ExternalPathString | { pathname: Router.RelativePathString, params?: Router.UnknownInputParams } | { pathname: Router.ExternalPathString, params?: Router.UnknownInputParams };'' @ [CHR 0x0A]
       @ ''    }'' @ [CHR 0x0A]
       @ ''  }'' @ [CHR 0x0A]
       @ ''}'' @ [CHR 0x0A]
   \<and> getTypedRoutesDeclarationFile (\<lambda>ctx::unit. Inr None :: string + RouteNode option)
       (\<lambda>s. s) () True False
     = getTypedRoutesDeclarationFile (\<lambda>ctx::unit. Inl ''ENOENT'' :: string + RouteNode option)
       (\<lambda>s. s) () False False"
proof -
  note t = C6_document_when_no_tree
             [where getRoutes = "\<lambda>ctx::unit. Inl ''ENOENT'' :: string + RouteNode option"
                and ctx = "()" and e = "''ENOENT''" and removeSupportedExtensions = "\<lambda>s. s"
                and partialTypedGroups = False,
              OF disjI1 [OF refl], THEN conjunct2, THEN conjunct2, THEN conjunct1]
  note u = C6_document_when_no_tree
             [where getRoutes = "\<lambda>ctx::unit. Inr None :: string + RouteNode option"
                and ctx = "()" and e = "''ENOENT''" and removeSupportedExtensions = "\<lambda>s. s"
                and partialTypedGroups = True,
              OF disjI2 [OF refl], THEN conjunct2, THEN conjunct2, THEN conjunct1]
  show ?thesis
    unfolding u unfolding t by (intro conjI refl)
qed

end
